theory Spec2Isabelle
  imports Main "HOL-Library.Word"
begin

section \<open>Machine values\<close>

text \<open>
  The program is \<^verbatim>\<open>examples/imatrix/imatrix.cpp\<close>. Its \<^verbatim>\<open>int\<close> values that are
  stored, compared or written to a file (\<^verbatim>\<open>ncall\<close>, \<^verbatim>\<open>counts[i]\<close>, \<^verbatim>\<open>m_last_call\<close>, the
  lengths in the file) are 32-bit words read as two's complement by \<open>sint\<close>; a
  \<^verbatim>\<open>float\<close> is the 32-bit pattern of an IEEE-754 binary32 number, so that writing
  it to a file and reading it back is the identity on the pattern. Sizes of vectors
  and loop indices are natural numbers.
\<close>

type_synonym byte = "8 word"
type_synonym i32 = "32 word"
type_synonym f32 = "32 word"

subsection \<open>IEEE-754 binary32 arithmetic, round to nearest, ties to even\<close>

text \<open>\<open>nbits n\<close> is the number of binary digits of \<open>n\<close>.\<close>

fun nbits :: "nat \<Rightarrow> nat" where
  "nbits n = (if n = 0 then 0 else Suc (nbits (n div 2)))"

declare nbits.simps [simp del]

text \<open>\<open>rne_shift m sh\<close> is \<open>m / 2 ^ sh\<close> rounded to the nearest integer, ties to even.\<close>

definition rne_shift :: "nat \<Rightarrow> nat \<Rightarrow> nat" where
  "rne_shift m sh =
     (if 2 ^ sh < 2 * (m mod 2 ^ sh) \<or> (2 * (m mod 2 ^ sh) = 2 ^ sh \<and> odd (m div 2 ^ sh))
      then m div 2 ^ sh + 1 else m div 2 ^ sh)"

text \<open>
  \<open>fp_round p emin m e\<close> rounds the number \<open>m * 2 ^ e\<close> to a significand of at most
  \<open>p\<close> bits whose unit in the last place is at least \<open>2 ^ emin\<close>: the result
  \<open>(m', t)\<close> stands for \<open>m' * 2 ^ t\<close>.
\<close>

definition fp_scale :: "nat \<Rightarrow> int \<Rightarrow> int \<Rightarrow> nat \<times> int" where
  "fp_scale m e t = (if t \<le> e then m * 2 ^ nat (e - t) else rne_shift m (nat (t - e)), t)"

definition fp_round :: "nat \<Rightarrow> int \<Rightarrow> nat \<Rightarrow> int \<Rightarrow> nat \<times> int" where
  "fp_round p emin m e = fp_scale m e (max (e + int (nbits m) - int p) emin)"

definition f_sign :: "f32 \<Rightarrow> bool" where
  "f_sign w = (2 ^ 31 \<le> unat w)"

definition f_expo :: "f32 \<Rightarrow> nat" where
  "f_expo w = (unat w div 2 ^ 23) mod 256"

definition f_mant :: "f32 \<Rightarrow> nat" where
  "f_mant w = unat w mod 2 ^ 23"

text \<open>A finite pattern \<open>w\<close> is the number \<open>\<plusminus> f_sig w * 2 ^ f_exp2 w\<close>.\<close>

definition f_sig :: "f32 \<Rightarrow> nat" where
  "f_sig w = (if f_expo w = 0 then f_mant w else 2 ^ 23 + f_mant w)"

definition f_exp2 :: "f32 \<Rightarrow> int" where
  "f_exp2 w = (if f_expo w = 0 then - 149 else int (f_expo w) - 150)"

definition f_pack :: "bool \<Rightarrow> nat \<Rightarrow> f32" where
  "f_pack s b = of_nat ((if s then 2 ^ 31 else 0) + b)"

definition f_inf :: "bool \<Rightarrow> f32" where
  "f_inf s = f_pack s 0x7F800000"

text \<open>
  The pattern of a NaN result depends on the processor; the model returns the quiet
  NaN \<open>0x7FC00000\<close>. No statement below depends on which NaN it is.
\<close>

definition f_nan :: f32 where
  "f_nan = 0x7FC00000"

definition f_zero :: f32 where
  "f_zero = 0"

definition f_one :: f32 where
  "f_one = 0x3F800000"

definition f_encode :: "bool \<Rightarrow> nat \<Rightarrow> f32" where
  "f_encode s b = (if 0x7F800000 \<le> b then f_inf s else f_pack s b)"

text \<open>The number \<open>\<plusminus> m * 2 ^ e\<close> as a binary32 pattern; \<open>s\<close> says that it is negative.\<close>

definition f_round :: "bool \<Rightarrow> nat \<Rightarrow> int \<Rightarrow> f32" where
  "f_round s m e =
     (if m = 0 then f_pack s 0
      else (case fp_round 24 (- 149) m e of
              (m', t) \<Rightarrow> f_encode s (nat (t + 149) * 2 ^ 23 + m')))"

definition f_isnan :: "f32 \<Rightarrow> bool" where
  "f_isnan w = (f_expo w = 255 \<and> f_mant w \<noteq> 0)"

definition f_isinf :: "f32 \<Rightarrow> bool" where
  "f_isinf w = (f_expo w = 255 \<and> f_mant w = 0)"

text \<open>\<^verbatim>\<open>std::isfinite\<close>.\<close>

definition f_isfinite :: "f32 \<Rightarrow> bool" where
  "f_isfinite w = (f_expo w \<noteq> 255)"

definition f_mul :: "f32 \<Rightarrow> f32 \<Rightarrow> f32" where
  "f_mul a b =
     (if f_isnan a \<or> f_isnan b then f_nan
      else if f_isinf a \<or> f_isinf b then
        (if f_sig a = 0 \<or> f_sig b = 0 then f_nan else f_inf (f_sign a \<noteq> f_sign b))
      else f_round (f_sign a \<noteq> f_sign b) (f_sig a * f_sig b) (f_exp2 a + f_exp2 b))"

text \<open>
  The quotient of the significands is computed to more than 40 bits, with one more
  bit that records a nonzero remainder, and then rounded.
\<close>

definition quot_sticky :: "nat \<Rightarrow> nat \<Rightarrow> nat" where
  "quot_sticky n d = 2 * (n div d) + (if n mod d = 0 then 0 else 1)"

definition f_div :: "f32 \<Rightarrow> f32 \<Rightarrow> f32" where
  "f_div a b =
     (if f_isnan a \<or> f_isnan b then f_nan
      else if f_isinf a then (if f_isinf b then f_nan else f_inf (f_sign a \<noteq> f_sign b))
      else if f_isinf b then f_pack (f_sign a \<noteq> f_sign b) 0
      else if f_sig b = 0 then (if f_sig a = 0 then f_nan else f_inf (f_sign a \<noteq> f_sign b))
      else f_round (f_sign a \<noteq> f_sign b) (quot_sticky (f_sig a * 2 ^ 64) (f_sig b))
             (f_exp2 a - f_exp2 b - 65))"

definition f_signed_sig :: "f32 \<Rightarrow> int \<Rightarrow> int" where
  "f_signed_sig w e = (if f_sign w then - 1 else 1) * int (f_sig w) * 2 ^ nat (f_exp2 w - e)"

text \<open>
  The exact sum \<open>z * 2 ^ e\<close> rounded; an exact zero is \<open>+0\<close> unless both summands
  are negative (then both are \<open>-0\<close>).
\<close>

definition f_round_int :: "bool \<Rightarrow> int \<Rightarrow> int \<Rightarrow> f32" where
  "f_round_int both_neg z e =
     (if z = 0 then f_pack both_neg 0 else f_round (z < 0) (nat \<bar>z\<bar>) e)"

definition f_add :: "f32 \<Rightarrow> f32 \<Rightarrow> f32" where
  "f_add a b =
     (if f_isnan a \<or> f_isnan b then f_nan
      else if f_isinf a then (if f_isinf b \<and> f_sign a \<noteq> f_sign b then f_nan else a)
      else if f_isinf b then b
      else f_round_int (f_sign a \<and> f_sign b)
             (f_signed_sig a (min (f_exp2 a) (f_exp2 b)) + f_signed_sig b (min (f_exp2 a) (f_exp2 b)))
             (min (f_exp2 a) (f_exp2 b)))"

text \<open>\<^verbatim>\<open>static_cast<float>(i)\<close> for an \<^verbatim>\<open>int\<close>.\<close>

definition f_of_int :: "int \<Rightarrow> f32" where
  "f_of_int i = f_round (i < 0) (nat \<bar>i\<bar>) 0"

subsection \<open>The threshold \<^verbatim>\<open>round(n_as * 0.05)\<close>\<close>

text \<open>
  The product is taken in binary64: \<^verbatim>\<open>n_as\<close> converts exactly, the literal
  \<^verbatim>\<open>0.05\<close> is the double \<open>7205759403792794 * 2 ^ - 57\<close>, the product is rounded to
  53 bits, and \<^verbatim>\<open>round\<close> takes the nearest integer, halves away from zero. The
  function is used for \<open>0 < n\<close> only.
\<close>

definition round_n_as_005 :: "int \<Rightarrow> int" where
  "round_n_as_005 n =
     (case fp_round 53 (- 1074) (nat n * 7205759403792794) (- 57) of
        (m, t) \<Rightarrow>
          if 0 \<le> t then int m * 2 ^ nat t
          else (int m + 2 ^ (nat (- t) - 1)) div 2 ^ nat (- t))"

lemmas f32_eval =
  f_of_int_def f_round_def f_round_int_def f_encode_def fp_round_def fp_scale_def nbits.simps
  rne_shift_def quot_sticky_def f_pack_def f_inf_def f_nan_def f_zero_def f_one_def
  f_mul_def f_div_def f_add_def f_isnan_def f_isinf_def f_isfinite_def
  f_sign_def f_expo_def f_mant_def f_sig_def f_exp2_def f_signed_sig_def

subsection \<open>Bytes\<close>

text \<open>
  \<^verbatim>\<open>out.write((const char *) &x, sizeof(x))\<close> on a little-endian machine, and
  \<^verbatim>\<open>in.read\<close> of the same four bytes.
\<close>

definition le_bytes4 :: "nat \<Rightarrow> byte list" where
  "le_bytes4 n =
     [of_nat (n mod 256), of_nat (n div 256 mod 256), of_nat (n div 256 div 256 mod 256),
      of_nat (n div 256 div 256 div 256 mod 256)]"

definition le32 :: "32 word \<Rightarrow> byte list" where
  "le32 w = le_bytes4 (unat w)"

definition le_nat :: "byte list \<Rightarrow> nat" where
  "le_nat bs = foldr (\<lambda>b a. unat b + 256 * a) bs 0"

definition of_le32 :: "byte list \<Rightarrow> 32 word" where
  "of_le32 bs = of_nat (le_nat bs)"

definition bytes_of_string :: "string \<Rightarrow> byte list" where
  "bytes_of_string s = map (\<lambda>c. of_nat (of_char c)) s"

definition string_of_bytes :: "byte list \<Rightarrow> string" where
  "string_of_bytes bs = map (\<lambda>b. char_of (unat b)) bs"

section \<open>The collector\<close>

text \<open>
  \<^verbatim>\<open>struct Stats\<close>; the field \<^verbatim>\<open>values\<close> is \<open>values'\<close> here. \<^verbatim>\<open>n_as\<close> is never
  written to a file and is kept as an integer.
\<close>

record Stats =
  activations :: "f32 list"
  values' :: "f32 list"
  counts :: "i32 list"
  ncall :: i32
  n_as :: int

definition Stats0 :: Stats where
  "Stats0 = \<lparr>activations = [], values' = [], counts = [], ncall = 0, n_as = 1\<rparr>"

text \<open>The fields of \<^verbatim>\<open>gpt_params\<close> that the collector reads.\<close>

record gpt_params =
  out_file :: string
  prompt_file :: string
  n_out_freq :: i32
  n_save_freq :: i32
  process_output :: bool
  output_tensor_name :: string

text \<open>
  \<^verbatim>\<open>class IMatrixCollector\<close>. \<^verbatim>\<open>m_stats\<close> is a \<^verbatim>\<open>std::unordered_map\<close>: a finite map.
  The order in which a loop over it meets the keys is not fixed by the language, so
  every function that runs such a loop takes that order as an argument (a list of the
  keys). The mutex and the two scratch buffers hold no state between calls.
\<close>

record IMatrixCollector =
  m_stats :: "string \<Rightarrow> Stats option"
  m_params :: gpt_params
  m_last_call :: i32

definition collector0 :: "gpt_params \<Rightarrow> IMatrixCollector" where
  "collector0 p = \<lparr>m_stats = Map.empty, m_params = p, m_last_call = 0\<rparr>"

text \<open>
  How a call ends: it returns (\<open>Ok\<close>), the process ends in \<^verbatim>\<open>exit(1)\<close> (\<open>Exit1\<close>, with
  the state at that moment), or it ends in a failed \<^verbatim>\<open>GGML_ASSERT\<close>, an uncaught
  exception, a division by zero, the use of a variable that was never written, or an
  access outside a vector (\<open>Fault\<close>).
\<close>

datatype ('a, 's) result = Ok 'a | Exit1 's | Fault

section \<open>\<^verbatim>\<open>save_imatrix\<close>\<close>

definition count_zeros :: "i32 list \<Rightarrow> nat" where
  "count_zeros cs = length (filter (\<lambda>c. c = 0) cs)"

text \<open>\<^verbatim>\<open>counts.data() + i*n_per_expert\<close>, read at \<^verbatim>\<open>j < n_per_expert\<close>.\<close>

definition expert_block :: "nat \<Rightarrow> nat \<Rightarrow> 'a list \<Rightarrow> 'a list" where
  "expert_block npe i xs = take npe (drop (i * npe) xs)"

definition bad_experts :: "nat \<Rightarrow> nat \<Rightarrow> i32 list \<Rightarrow> nat list" where
  "bad_experts n npe cs = filter (\<lambda>i. 0 < count_zeros (expert_block npe i cs)) [0..<n]"

text \<open>\<^verbatim>\<open>for (j = 0; j < n_per_expert; ++j) p[i*n_per_expert + j] = v\<close>.\<close>

definition fill_block :: "nat \<Rightarrow> nat \<Rightarrow> 'a \<Rightarrow> 'a list \<Rightarrow> 'a list" where
  "fill_block npe i v xs = fold (\<lambda>j ys. ys[i * npe + j := v]) [0..<npe] xs"

definition repair_expert :: "nat \<Rightarrow> nat \<Rightarrow> Stats \<Rightarrow> Stats" where
  "repair_expert npe i e =
     e\<lparr>counts := fill_block npe i 1 (counts e), values' := fill_block npe i f_one (values' e)\<rparr>"

definition repair :: "nat \<Rightarrow> nat list \<Rightarrow> Stats \<Rightarrow> Stats" where
  "repair npe bad e = fold (repair_expert npe) bad e"

text \<open>The writes of the repair stay inside \<^verbatim>\<open>values\<close>.\<close>

definition repair_in_range :: "nat \<Rightarrow> nat list \<Rightarrow> Stats \<Rightarrow> bool" where
  "repair_in_range npe bad e = list_all (\<lambda>i. i * npe + npe \<le> length (values' e)) bad"

text \<open>
  \<^verbatim>\<open>n_per_expert = n_all / n_as\<close> and the list \<^verbatim>\<open>bad_experts\<close> of an entry with
  \<^verbatim>\<open>n_as > 1\<close>.
\<close>

definition n_per_expert :: "Stats \<Rightarrow> nat" where
  "n_per_expert e = length (counts e) div nat (n_as e)"

definition bad_of :: "Stats \<Rightarrow> nat list" where
  "bad_of e = bad_experts (nat (n_as e)) (n_per_expert e) (counts e)"

text \<open>What the first loop of \<^verbatim>\<open>save_imatrix\<close> decides for one entry.\<close>

datatype decision = Skip | Store | Repair

definition classify :: "Stats \<Rightarrow> decision" where
  "classify e =
     (if length (counts e) = 0 then Skip
      else if count_zeros (counts e) = length (counts e) then Skip
      else if 0 < count_zeros (counts e) then
        (if 1 < n_as e \<and> int (length (bad_of e)) < round_n_as_005 (n_as e) then Repair else Skip)
      else Store)"

text \<open>
  The first loop: \<open>ks\<close> is the rest of the keys in iteration order, \<open>m\<close> the map (the
  repair writes into it), \<open>ts\<close> the vector \<^verbatim>\<open>to_store\<close>.
\<close>

fun save_scan ::
  "string list \<Rightarrow> (string \<Rightarrow> Stats option) \<Rightarrow> string list \<Rightarrow>
   ((string \<Rightarrow> Stats option) \<times> string list, unit) result" where
  "save_scan [] m ts = Ok (m, ts)"
| "save_scan (k # ks) m ts =
     (case m k of
        None \<Rightarrow> save_scan ks m ts
      | Some e \<Rightarrow>
          (case classify e of
             Skip \<Rightarrow> save_scan ks m ts
           | Store \<Rightarrow> save_scan ks m (ts @ [k])
           | Repair \<Rightarrow>
               if repair_in_range (n_per_expert e) (bad_of e) e
               then save_scan ks (m(k \<mapsto> repair (n_per_expert e) (bad_of e) e)) (ts @ [k])
               else Fault))"

text \<open>The vector \<^verbatim>\<open>tmp\<close> of one stored entry.\<close>

definition tmp_value :: "Stats \<Rightarrow> nat \<Rightarrow> f32" where
  "tmp_value stat i =
     f_mul (f_div (values' stat ! i) (f_of_int (sint (counts stat ! i)))) (f_of_int (sint (ncall stat)))"

definition entry_bytes :: "string \<Rightarrow> Stats \<Rightarrow> byte list" where
  "entry_bytes name stat =
     le32 (of_nat (length name)) @ bytes_of_string name @ le32 (ncall stat) @
     le32 (of_nat (length (values' stat))) @
     concat (map (\<lambda>i. le32 (tmp_value stat i)) [0..<length (values' stat)])"

text \<open>The second loop; \<^verbatim>\<open>counts[i]\<close> is read for every \<^verbatim>\<open>i < values.size()\<close>.\<close>

fun write_entries ::
  "(string \<Rightarrow> Stats option) \<Rightarrow> string list \<Rightarrow> (byte list, unit) result" where
  "write_entries m [] = Ok []"
| "write_entries m (name # ts) =
     (case m name of
        None \<Rightarrow> Fault
      | Some stat \<Rightarrow>
          if length (counts stat) < length (values' stat) then Fault
          else (case write_entries m ts of
                  Ok bs \<Rightarrow> Ok (entry_bytes name stat @ bs)
                | r \<Rightarrow> r))"

text \<open>\<^verbatim>\<open>std::to_string\<close> of a positive number.\<close>

fun to_string :: "nat \<Rightarrow> string" where
  "to_string n =
     (if n < 10 then [char_of (48 + n)] else to_string (n div 10) @ [char_of (48 + n mod 10)])"

declare to_string.simps [simp del]

definition save_fname :: "gpt_params \<Rightarrow> i32 \<Rightarrow> string" where
  "save_fname p nc =
     (if out_file p = [] then ''imatrix.dat'' else out_file p) @
     (if 0 < sint nc then ''.at_'' @ to_string (nat (sint nc)) else [])"

definition trailer_bytes :: "IMatrixCollector \<Rightarrow> byte list" where
  "trailer_bytes c =
     le32 (m_last_call c) @ le32 (of_nat (length (prompt_file (m_params c)))) @
     bytes_of_string (prompt_file (m_params c))"

definition file_bytes :: "IMatrixCollector \<Rightarrow> string list \<Rightarrow> byte list \<Rightarrow> byte list" where
  "file_bytes c ts bs = le32 (of_nat (length ts)) @ bs @ trailer_bytes c"

text \<open>
  \<^verbatim>\<open>save_imatrix(ncall)\<close> with iteration order \<open>order\<close>: the collector after the call
  and the file written (its name and its bytes).
\<close>

definition save_imatrix ::
  "string list \<Rightarrow> i32 \<Rightarrow> IMatrixCollector \<Rightarrow>
   (IMatrixCollector \<times> string \<times> byte list, unit) result" where
  "save_imatrix order nc c =
     (case save_scan order (m_stats c) [] of
        Ok (m, ts) \<Rightarrow>
          (case write_entries m ts of
             Ok bs \<Rightarrow>
               Ok (c\<lparr>m_stats := m\<rparr>, save_fname (m_params c) nc, file_bytes c ts bs)
           | _ \<Rightarrow> Fault)
      | _ \<Rightarrow> Fault)"

section \<open>\<^verbatim>\<open>load_imatrix\<close>\<close>

text \<open>
  \<^verbatim>\<open>in.read(p, n)\<close> on the bytes that are left: \<open>None\<close> when fewer than \<open>n\<close> are left
  (the stream is then in its failed state, and every later read fails too).
\<close>

definition read_bytes :: "nat \<Rightarrow> byte list \<Rightarrow> (byte list \<times> byte list) option" where
  "read_bytes n bs = (if n \<le> length bs then Some (take n bs, drop n bs) else None)"

definition read_i32 :: "byte list \<Rightarrow> (i32 \<times> byte list) option" where
  "read_i32 bs = map_option (\<lambda>(x, r). (of_le32 x, r)) (read_bytes 4 bs)"

fun chunks4 :: "byte list \<Rightarrow> byte list list" where
  "chunks4 (a # b # c # d # r) = [a, b, c, d] # chunks4 r"
| "chunks4 r = []"

definition read_f32s :: "nat \<Rightarrow> byte list \<Rightarrow> (f32 list \<times> byte list) option" where
  "read_f32s n bs = map_option (\<lambda>(x, r). (map of_le32 (chunks4 x), r)) (read_bytes (4 * n) bs)"

text \<open>\<^verbatim>\<open>std::string name{name_as_vec.data()}\<close>: the bytes before the first zero byte.\<close>

definition c_str :: "byte list \<Rightarrow> string" where
  "c_str bs = string_of_bytes (takeWhile (\<lambda>b. b \<noteq> 0) bs)"

text \<open>\<^verbatim>\<open>v.resize(n, x)\<close>.\<close>

definition resize :: "nat \<Rightarrow> 'a \<Rightarrow> 'a list \<Rightarrow> 'a list" where
  "resize n x v = take n v @ replicate (n - length v) x"

text \<open>\<^verbatim>\<open>m_stats[name]\<close>: the entry, a new one when the key is not in the map.\<close>

definition lookup_or_new :: "(string \<Rightarrow> Stats option) \<Rightarrow> string \<Rightarrow> Stats" where
  "lookup_or_new m k = (case m k of None \<Rightarrow> Stats0 | Some e \<Rightarrow> e)"

text \<open>\<^verbatim>\<open>if (e.values.empty()) { e.values.resize(nval, 0); e.counts.resize(nval, 0); }\<close>\<close>

definition sized :: "nat \<Rightarrow> Stats \<Rightarrow> Stats" where
  "sized nval e =
     (if values' e = []
      then e\<lparr>values' := resize nval f_zero (values' e), counts := resize nval 0 (counts e)\<rparr>
      else e)"

text \<open>
  The loop \<^verbatim>\<open>e.values[i] += tmp[i]; e.counts[i] += ncall\<close> over \<^verbatim>\<open>i < nval\<close> (with
  \<open>nval = length tmp\<close>, not more than the two lengths), and \<^verbatim>\<open>e.ncall += ncall\<close>.
\<close>

definition merge_entry :: "i32 \<Rightarrow> f32 list \<Rightarrow> Stats \<Rightarrow> Stats" where
  "merge_entry nc tmp e =
     e\<lparr>values' := map2 f_add (values' e) tmp @ drop (length tmp) (values' e),
       counts := map (\<lambda>c. c + nc) (take (length tmp) (counts e)) @ drop (length tmp) (counts e),
       ncall := ncall e + nc\<rparr>"

datatype load_step = Next "byte list" IMatrixCollector | Return bool IMatrixCollector | Crash

definition load_merge ::
  "string \<Rightarrow> i32 \<Rightarrow> f32 list \<Rightarrow> byte list \<Rightarrow> IMatrixCollector \<Rightarrow> load_step" where
  "load_merge name nc tmp bs c =
     (if length (values' (sized (length tmp) (lookup_or_new (m_stats c) name))) < length tmp \<or>
         length (counts (sized (length tmp) (lookup_or_new (m_stats c) name))) < length tmp
      then Crash
      else Next bs (c\<lparr>m_stats := (m_stats c)
             (name \<mapsto> merge_entry nc tmp (sized (length tmp) (lookup_or_new (m_stats c) name)))\<rparr>))"

text \<open>
  One turn of the loop over the entries of the file. When the four bytes of \<^verbatim>\<open>len\<close>
  cannot be read, \<^verbatim>\<open>len\<close> was never written and \<^verbatim>\<open>len+1\<close> sizes a vector: \<open>Crash\<close>; so
  does a negative \<^verbatim>\<open>len\<close> (the size \<^verbatim>\<open>len+1\<close> of the vector is beyond \<^verbatim>\<open>max_size\<close>, or
  the count of the read is negative) and \<^verbatim>\<open>INT_MAX\<close> (\<^verbatim>\<open>len+1\<close> overflows). A failed
  read of the name returns \<^verbatim>\<open>false\<close> and leaves
  \<^verbatim>\<open>m_stats\<close> as it is; the later failures clear it.
\<close>

definition load_entry :: "byte list \<Rightarrow> IMatrixCollector \<Rightarrow> load_step" where
  "load_entry bs c =
     (case read_i32 bs of
        None \<Rightarrow> Crash
      | Some (len, bs1) \<Rightarrow>
          if sint len < 0 \<or> sint len = 2147483647 then Crash
          else
            (case read_bytes (nat (sint len)) bs1 of
               None \<Rightarrow> Return False c
             | Some (nm, bs2) \<Rightarrow>
                 (case read_i32 bs2 of
                    None \<Rightarrow> Return False (c\<lparr>m_stats := Map.empty\<rparr>)
                  | Some (nc, bs3) \<Rightarrow>
                      (case read_i32 bs3 of
                         None \<Rightarrow> Return False (c\<lparr>m_stats := Map.empty\<rparr>)
                       | Some (nval, bs4) \<Rightarrow>
                           if sint nval < 1 then Return False (c\<lparr>m_stats := Map.empty\<rparr>)
                           else
                             (case read_f32s (nat (sint nval)) bs4 of
                                None \<Rightarrow> Return False (c\<lparr>m_stats := Map.empty\<rparr>)
                              | Some (tmp, bs5) \<Rightarrow> load_merge (c_str nm) nc tmp bs5 c)))))"

fun load_entries ::
  "nat \<Rightarrow> byte list \<Rightarrow> IMatrixCollector \<Rightarrow> (bool \<times> IMatrixCollector, unit) result" where
  "load_entries 0 bs c = Ok (True, c)"
| "load_entries (Suc n) bs c =
     (case load_entry bs c of
        Next bs' c' \<Rightarrow> load_entries n bs' c'
      | Return b c' \<Rightarrow> Ok (b, c')
      | Crash \<Rightarrow> Fault)"

text \<open>
  \<^verbatim>\<open>load_imatrix(fname)\<close>: \<open>file\<close> is \<open>None\<close> when the file cannot be opened, and its
  bytes otherwise. The bytes after the last entry are not read.
\<close>

definition load_imatrix ::
  "byte list option \<Rightarrow> IMatrixCollector \<Rightarrow> (bool \<times> IMatrixCollector, unit) result" where
  "load_imatrix file c =
     (case file of
        None \<Rightarrow> Ok (False, c)
      | Some bs \<Rightarrow>
          (case read_i32 bs of
             None \<Rightarrow> Ok (False, c)
           | Some (n_entries, bs1) \<Rightarrow>
               if sint n_entries < 1 then Ok (False, c)
               else load_entries (nat (sint n_entries)) bs1 c))"

section \<open>\<^verbatim>\<open>collect_imatrix\<close>\<close>

text \<open>
  What \<^verbatim>\<open>collect_imatrix\<close> reads of the tensor \<^verbatim>\<open>t\<close> and of its sources: the operation,
  \<^verbatim>\<open>src0->name\<close>, \<^verbatim>\<open>src0->ne[2]\<close>, the extents and the element type of \<^verbatim>\<open>src1\<close>, its
  data (on the host or copied to it) as a function of the index of a float in a
  contiguous tensor, the extents of \<^verbatim>\<open>ids\<close> and the expert id at a row and a slot.
\<close>

datatype ggml_op = GGML_OP_MUL_MAT | GGML_OP_MUL_MAT_ID | GGML_OP_OTHER

record ggml_tensor =
  t_op :: ggml_op
  src0_name :: string
  src0_ne2 :: nat
  src1_ne0 :: nat
  src1_ne1 :: nat
  src1_ne2 :: nat
  src1_is_f32 :: bool
  src1_data :: "nat \<Rightarrow> f32"
  ids_ne0 :: nat
  ids_ne1 :: nat
  ids_data :: "nat \<Rightarrow> nat \<Rightarrow> i32"

definition filter_tensor_name :: "string \<Rightarrow> string" where
  "filter_tensor_name name =
     (case dropWhile (\<lambda>c. c \<noteq> CHR ''#'') name of
        [] \<Rightarrow> name
      | _ # p \<Rightarrow> takeWhile (\<lambda>c. c \<noteq> CHR ''#'') p)"

text \<open>The answer to the scheduler's question (\<^verbatim>\<open>ask\<close> is true).\<close>

definition collect_ask :: "IMatrixCollector \<Rightarrow> ggml_tensor \<Rightarrow> bool" where
  "collect_ask c t =
     (if t_op t = GGML_OP_MUL_MAT_ID then True
      else if t_op t \<noteq> GGML_OP_MUL_MAT then False
      else if src1_ne1 t < 16 \<or> \<not> src1_is_f32 t then False
      else take 4 (filter_tensor_name (src0_name t)) = ''blk.'' \<or>
           (process_output (m_params c) \<and>
            filter_tensor_name (src0_name t) = output_tensor_name (m_params c)))"

text \<open>The collector together with the files written so far.\<close>

type_synonym world = "IMatrixCollector \<times> (string \<times> byte list) list"

definition entry :: "string \<Rightarrow> world \<Rightarrow> Stats" where
  "entry k w = lookup_or_new (m_stats (fst w)) k"

definition set_entry :: "string \<Rightarrow> Stats \<Rightarrow> world \<Rightarrow> world" where
  "set_entry k e w = ((fst w)\<lparr>m_stats := (m_stats (fst w))(k \<mapsto> e)\<rparr>, snd w)"

text \<open>A step on the entry \<^verbatim>\<open>e\<close> of key \<open>k\<close>, as a step on the world.\<close>

definition on_entry ::
  "string \<Rightarrow> (Stats \<Rightarrow> (Stats, Stats) result) \<Rightarrow> world \<Rightarrow> (world, world) result" where
  "on_entry k f w =
     (case f (entry k w) of
        Ok e \<Rightarrow> Ok (set_entry k e w)
      | Exit1 e \<Rightarrow> Exit1 (set_entry k e w)
      | Fault \<Rightarrow> Fault)"

text \<open>A loop that stops at the first step that does not return.\<close>

fun iter :: "('i \<Rightarrow> 'a \<Rightarrow> ('a, 's) result) \<Rightarrow> 'i list \<Rightarrow> 'a \<Rightarrow> ('a, 's) result" where
  "iter f [] s = Ok s"
| "iter f (i # js) s = (case f i s of Ok s' \<Rightarrow> iter f js s' | r \<Rightarrow> r)"

definition and_then ::
  "('a, 's) result \<Rightarrow> ('a \<Rightarrow> ('b, 's) result) \<Rightarrow> ('b, 's) result" where
  "and_then r f = (case r of Ok x \<Rightarrow> f x | Exit1 x \<Rightarrow> Exit1 x | Fault \<Rightarrow> Fault)"

text \<open>
  The body of the innermost loop at index \<open>k\<close> of the three vectors, for the
  activation \<open>x\<close>.
\<close>

definition add_sample :: "nat \<Rightarrow> f32 \<Rightarrow> Stats \<Rightarrow> (Stats, Stats) result" where
  "add_sample k x e =
     (if k < length (activations e) \<and> k < length (values' e) \<and> k < length (counts e) then
        (if f_isfinite (f_add (values' e ! k) (f_mul x x)) then Ok else Exit1)
          (e\<lparr>activations := (activations e)[k := x],
             values' := (values' e)[k := f_add (values' e ! k) (f_mul x x)],
             counts := (counts e)[k := counts e ! k + 1]\<rparr>)
      else Fault)"

text \<open>\<^verbatim>\<open>for (j = 0; j < ne0; ++j)\<close> on the row \<open>x\<close>, written from \<open>e_start\<close> on.\<close>

definition add_row :: "nat \<Rightarrow> nat \<Rightarrow> (nat \<Rightarrow> f32) \<Rightarrow> Stats \<Rightarrow> (Stats, Stats) result" where
  "add_row ne0 e_start x e = iter (\<lambda>j. add_sample (e_start + j) (x j)) [0..<ne0] e"

definition do_save :: "string list \<Rightarrow> i32 \<Rightarrow> world \<Rightarrow> (world, world) result" where
  "do_save order nc w =
     (case save_imatrix order nc (fst w) of
        Ok (c, f) \<Rightarrow> Ok (c, snd w @ [f])
      | _ \<Rightarrow> Fault)"

text \<open>
  The two tests on \<^verbatim>\<open>m_last_call\<close> after it was raised; \<^verbatim>\<open>%\<close> by zero does not
  return.
\<close>

definition periodic :: "string list \<Rightarrow> world \<Rightarrow> (world, world) result" where
  "periodic order w =
     (if n_out_freq (m_params (fst w)) = 0 then Fault
      else and_then
        (if sint (m_last_call (fst w)) mod sint (n_out_freq (m_params (fst w))) = 0
         then do_save order (- 1) w else Ok w)
        (\<lambda>w1. if 0 < sint (n_save_freq (m_params (fst w1))) \<and>
                  sint (m_last_call (fst w1)) mod sint (n_save_freq (m_params (fst w1))) = 0
               then do_save order (m_last_call (fst w1)) w1 else Ok w1))"

text \<open>\<^verbatim>\<open>if (e.ncall > m_last_call) { m_last_call = e.ncall; ... }\<close>\<close>

definition checkpoint :: "string list \<Rightarrow> string \<Rightarrow> world \<Rightarrow> (world, world) result" where
  "checkpoint order k w =
     (if sint (m_last_call (fst w)) < sint (ncall (entry k w))
      then periodic order ((fst w)\<lparr>m_last_call := ncall (entry k w)\<rparr>, snd w)
      else Ok w)"

definition incr_ncall :: "Stats \<Rightarrow> Stats" where
  "incr_ncall e = e\<lparr>ncall := ncall e + 1\<rparr>"

text \<open>The three \<^verbatim>\<open>resize(n, 0)\<close> of a first observation.\<close>

definition resize_all :: "nat \<Rightarrow> Stats \<Rightarrow> Stats" where
  "resize_all n e =
     e\<lparr>activations := resize n f_zero (activations e), values' := resize n f_zero (values' e),
       counts := resize n 0 (counts e)\<rparr>"

subsection \<open>The branch of \<^verbatim>\<open>GGML_OP_MUL_MAT\<close>\<close>

definition init_plain :: "ggml_tensor \<Rightarrow> Stats \<Rightarrow> Stats" where
  "init_plain t e = (if values' e = [] then resize_all (src1_ne0 t) e else e)"

definition plain_rows :: "ggml_tensor \<Rightarrow> string \<Rightarrow> world \<Rightarrow> (world, world) result" where
  "plain_rows t k w =
     iter (\<lambda>row. on_entry k (add_row (src1_ne0 t) 0 (\<lambda>j. src1_data t (row * src1_ne0 t + j))))
       [0..<src1_ne1 t * src1_ne2 t] w"

text \<open>
  The entry is looked up (and made when it is new); a length that differs from the
  established one ends the process before anything else is written.
\<close>

definition collect_plain ::
  "string list \<Rightarrow> ggml_tensor \<Rightarrow> string \<Rightarrow> world \<Rightarrow> (world, world) result" where
  "collect_plain order t k w =
     (if values' (entry k w) \<noteq> [] \<and> length (values' (entry k w)) \<noteq> src1_ne0 t
      then Exit1 (set_entry k (entry k w) w)
      else and_then (plain_rows t k (set_entry k (incr_ncall (init_plain t (entry k w))) w))
             (checkpoint order k))"

subsection \<open>The branch of \<^verbatim>\<open>GGML_OP_MUL_MAT_ID\<close>\<close>

definition init_routed :: "ggml_tensor \<Rightarrow> Stats \<Rightarrow> Stats" where
  "init_routed t e =
     (if values' e = []
      then (resize_all (src1_ne0 t * src0_ne2 t) e)\<lparr>n_as := int (src0_ne2 t)\<rparr>
      else e)"

text \<open>
  The body of the loop over \<^verbatim>\<open>row\<close> for expert \<open>ex\<close> and slot \<open>idx\<close>: the assertion
  on the expert id, the test \<^verbatim>\<open>excur != ex\<close>, and the row
  \<^verbatim>\<open>data + i11*nb[1] + i12*nb[2]\<close> with \<^verbatim>\<open>i11 = idx % ne[1]\<close>.
\<close>

definition routed_row ::
  "ggml_tensor \<Rightarrow> nat \<Rightarrow> nat \<Rightarrow> nat \<Rightarrow> Stats \<Rightarrow> (Stats, Stats) result" where
  "routed_row t ex idx row e =
     (if sint (ids_data t row idx) < 0 \<or> int (src0_ne2 t) \<le> sint (ids_data t row idx) then Fault
      else if sint (ids_data t row idx) \<noteq> int ex then Ok e
      else if src1_ne1 t = 0 then Fault
      else add_row (src1_ne0 t) (ex * src1_ne0 t)
             (\<lambda>j. src1_data t ((idx mod src1_ne1 t + row * src1_ne1 t) * src1_ne0 t + j)) e)"

definition routed_expert ::
  "string list \<Rightarrow> ggml_tensor \<Rightarrow> string \<Rightarrow> nat \<Rightarrow> world \<Rightarrow> (world, world) result" where
  "routed_expert order t k ex w =
     and_then
       (iter (\<lambda>idx. iter (\<lambda>row. on_entry k (routed_row t ex idx row)) [0..<src1_ne2 t])
          [0..<ids_ne0 t] w)
       (checkpoint order k)"

text \<open>
  \<^verbatim>\<open>++e.ncall\<close> comes first here, before the test of the length.
\<close>

definition collect_routed ::
  "string list \<Rightarrow> ggml_tensor \<Rightarrow> string \<Rightarrow> world \<Rightarrow> (world, world) result" where
  "collect_routed order t k w =
     (if ids_ne1 t \<noteq> src1_ne2 t then Fault
      else if values' (entry k w) \<noteq> [] \<and>
              length (values' (entry k w)) \<noteq> src1_ne0 t * src0_ne2 t
      then Exit1 (set_entry k (incr_ncall (entry k w)) w)
      else iter (routed_expert order t k) [0..<src0_ne2 t]
             (set_entry k (init_routed t (incr_ncall (entry k w))) w))"

text \<open>
  \<^verbatim>\<open>collect_imatrix(t, ask, user_data)\<close>; \<open>order\<close> is the order in which a
  \<^verbatim>\<open>save_imatrix\<close> called from here meets the keys.
\<close>

definition collect_imatrix ::
  "string list \<Rightarrow> ggml_tensor \<Rightarrow> bool \<Rightarrow> world \<Rightarrow> (bool \<times> world, world) result" where
  "collect_imatrix order t ask w =
     (if ask then Ok (collect_ask (fst w) t, w)
      else and_then
        (if t_op t = GGML_OP_MUL_MAT_ID
         then collect_routed order t (filter_tensor_name (src0_name t)) w
         else collect_plain order t (filter_tensor_name (src0_name t)) w)
        (\<lambda>w'. Ok (True, w')))"

section \<open>Notions used in the statements\<close>

text \<open>
  The vectors \<^verbatim>\<open>values\<close> and \<^verbatim>\<open>counts\<close> of an entry have the same length: the program
  sizes them together and never changes the length of one alone.
\<close>

definition stats_wf :: "Stats \<Rightarrow> bool" where
  "stats_wf e = (length (values' e) = length (counts e))"

text \<open>The entry after the first loop of \<^verbatim>\<open>save_imatrix\<close>, and whether it is stored.\<close>

definition entry_after :: "Stats \<Rightarrow> Stats" where
  "entry_after e = (if classify e = Repair then repair (n_per_expert e) (bad_of e) e else e)"

definition kept :: "Stats \<Rightarrow> bool" where
  "kept e = (classify e \<noteq> Skip)"

text \<open>The vector \<^verbatim>\<open>to_store\<close> and the map after the first loop, for iteration order \<open>order\<close>.\<close>

definition to_store :: "string list \<Rightarrow> (string \<Rightarrow> Stats option) \<Rightarrow> string list" where
  "to_store order m = filter (\<lambda>k. case m k of None \<Rightarrow> False | Some e \<Rightarrow> kept e) order"

definition stats_after :: "string list \<Rightarrow> (string \<Rightarrow> Stats option) \<Rightarrow> string \<Rightarrow> Stats option" where
  "stats_after order m = (\<lambda>k. if k \<in> set order then map_option entry_after (m k) else m k)"

text \<open>The bytes of the file.\<close>

definition snapshot :: "string list \<Rightarrow> IMatrixCollector \<Rightarrow> byte list" where
  "snapshot order c =
     file_bytes c (to_store order (m_stats c))
       (concat (map (\<lambda>k. entry_bytes k (the (stats_after order (m_stats c) k)))
          (to_store order (m_stats c))))"

text \<open>
  \<open>order\<close> lists keys of the map, each once, and their entries have vectors of equal
  length.
\<close>

definition order_wf :: "string list \<Rightarrow> IMatrixCollector \<Rightarrow> bool" where
  "order_wf order c =
     (distinct order \<and> list_all (\<lambda>k. case m_stats c k of None \<Rightarrow> False | Some e \<Rightarrow> stats_wf e) order)"

text \<open>
  Index \<open>i\<close> lies in the block of an expert (one of the \<^verbatim>\<open>n_as\<close> blocks of
  \<^verbatim>\<open>n_per_expert\<close> elements) that has at least one zero count.
\<close>

definition in_bad_expert :: "Stats \<Rightarrow> nat \<Rightarrow> bool" where
  "in_bad_expert e i =
     (\<exists>x<nat (n_as e). x * n_per_expert e \<le> i \<and> i < x * n_per_expert e + n_per_expert e \<and>
        (\<exists>j<n_per_expert e. counts e ! (x * n_per_expert e + j) = 0))"

text \<open>The entry of a key after \<^verbatim>\<open>save_imatrix\<close>.\<close>

definition saved_entry :: "string list \<Rightarrow> i32 \<Rightarrow> IMatrixCollector \<Rightarrow> string \<Rightarrow> Stats option" where
  "saved_entry order nc c k = (case save_imatrix order nc c of Ok (c', f) \<Rightarrow> m_stats c' k | _ \<Rightarrow> None)"

text \<open>
  The call counts of the entries and \<^verbatim>\<open>m_last_call\<close>, and the property that
  \<^verbatim>\<open>m_last_call\<close> is the largest call count (0 for the empty map).
\<close>

definition ncalls :: "IMatrixCollector \<Rightarrow> string \<Rightarrow> i32 option" where
  "ncalls c k = map_option ncall (m_stats c k)"

definition last_call_is_max :: "i32 \<Rightarrow> (string \<Rightarrow> i32 option) \<Rightarrow> bool" where
  "last_call_is_max l n =
     (0 \<le> sint l \<and> (\<forall>k v. n k = Some v \<longrightarrow> sint v \<le> sint l) \<and>
      (l = 0 \<and> n = Map.empty \<or> (\<exists>k. n k = Some l)))"

text \<open>
  The worlds built from a new collector by calls of \<^verbatim>\<open>collect_imatrix\<close> that return,
  for tensors with at least one expert (\<^verbatim>\<open>ne[2]\<close> of a tensor is at least 1) and with the
  call count of the entry not yet at \<^verbatim>\<open>INT_MAX\<close>.
\<close>

inductive observed :: "world \<Rightarrow> bool" where
  new: "observed (collector0 p, [])"
| call: "observed w \<Longrightarrow> collect_imatrix order t ask w = Ok (b, w') \<Longrightarrow> 0 < src0_ne2 t \<Longrightarrow>
     sint (ncall (entry (filter_tensor_name (src0_name t)) w)) < 2147483647 \<Longrightarrow> observed w'"

text \<open>
  The collectors built from a new one by calls of \<^verbatim>\<open>load_imatrix\<close> that return (with
  \<^verbatim>\<open>true\<close> or \<^verbatim>\<open>false\<close>), and by nothing else.
\<close>

inductive merged :: "IMatrixCollector \<Rightarrow> bool" where
  fresh: "merged (collector0 p)"
| load: "merged c \<Longrightarrow> load_imatrix file c = Ok (b, c') \<Longrightarrow> merged c'"

text \<open>
  The entry that \<^verbatim>\<open>load_imatrix\<close> makes in a new collector from the bytes of a stored
  entry: the values read are added to zeros, every count is the call count.
\<close>

definition reloaded :: "Stats \<Rightarrow> Stats" where
  "reloaded stat =
     \<lparr>activations = [],
      values' = map (\<lambda>i. f_add f_zero (tmp_value stat i)) [0..<length (values' stat)],
      counts = replicate (length (values' stat)) (ncall stat),
      ncall = ncall stat, n_as = 1\<rparr>"

text \<open>
  A key that the file format holds: shorter than \<^verbatim>\<open>INT_MAX\<close> and without a zero byte.
\<close>

definition name_ok :: "string \<Rightarrow> bool" where
  "name_ok k = (length k < 2147483647 \<and> list_all (\<lambda>ch. of_char ch \<noteq> (0 :: nat)) k)"

text \<open>
  An entry that goes into the file as it is and comes back from it: it is stored without a
  repair, it has fewer than \<^verbatim>\<open>INT_MAX\<close> values, and its call count is not 0 (every count of
  the entry that \<^verbatim>\<open>load_imatrix\<close> makes is the call count).
\<close>

definition storable :: "Stats \<Rightarrow> bool" where
  "storable stat =
     (classify stat = Store \<and> length (values' stat) < 2147483648 \<and> ncall stat \<noteq> 0)"

text \<open>The values written for an entry (the vector \<^verbatim>\<open>tmp\<close>).\<close>

definition written_values :: "Stats \<Rightarrow> f32 list" where
  "written_values stat = map (tmp_value stat) [0..<length (values' stat)]"

text \<open>
  What becomes of a written value \<open>x\<close> of an entry with call count \<open>nc\<close> when the file is
  loaded into a new collector and that collector is written: \<^verbatim>\<open>load_imatrix\<close> adds \<open>x\<close>
  to 0 and makes the count \<open>nc\<close>, \<^verbatim>\<open>save_imatrix\<close> divides by the count and multiplies by
  the call count.
\<close>

definition reencoded :: "i32 \<Rightarrow> f32 \<Rightarrow> f32" where
  "reencoded nc x = f_mul (f_div (f_add f_zero x) (f_of_int (sint nc))) (f_of_int (sint nc))"

definition rewritten_values :: "Stats \<Rightarrow> f32 list" where
  "rewritten_values stat = map (reencoded (ncall stat)) (written_values stat)"

text \<open>
  The bytes of one entry in the file: the length of the name, the name, the call count, the
  number of values, the values.
\<close>

definition stored_bytes :: "string \<Rightarrow> i32 \<Rightarrow> f32 list \<Rightarrow> byte list" where
  "stored_bytes name nc vs =
     le32 (of_nat (length name)) @ bytes_of_string name @ le32 nc @ le32 (of_nat (length vs)) @
     concat (map le32 vs)"

text \<open>What a new collector holds after it has loaded a file of entries stored as they were.\<close>

definition reloaded_map :: "string list \<Rightarrow> (string \<Rightarrow> Stats option) \<Rightarrow> string \<Rightarrow> Stats option" where
  "reloaded_map order m = (\<lambda>k. if k \<in> set order then map_option reloaded (m k) else None)"

section \<open>Concrete inputs\<close>

definition params0 :: gpt_params where
  "params0 = \<lparr>out_file = [], prompt_file = [], n_out_freq = 10, n_save_freq = 0,
     process_output = False, output_tensor_name = ''output.weight''\<rparr>"

definition key_up :: string where
  "key_up = ''blk.0.ffn_up_exps.weight''"

text \<open>
  A routed tensor of 20 experts with one element each; expert 0 was never chosen, the
  others once, with activation 2.
\<close>

definition stats20 :: Stats where
  "stats20 = \<lparr>activations = 0 # replicate 19 0x40000000,
     values' = 0 # replicate 19 0x40800000, counts = 0 # replicate 19 1, ncall = 1, n_as = 20\<rparr>"

definition collector20 :: IMatrixCollector where
  "collector20 = \<lparr>m_stats = [key_up \<mapsto> stats20], m_params = params0, m_last_call = 1\<rparr>"

text \<open>The same with 30 experts.\<close>

definition stats30 :: Stats where
  "stats30 = \<lparr>activations = 0 # replicate 29 0x40000000,
     values' = 0 # replicate 29 0x40800000, counts = 0 # replicate 29 1, ncall = 1, n_as = 30\<rparr>"

definition collector30 :: IMatrixCollector where
  "collector30 = \<lparr>m_stats = [key_up \<mapsto> stats30], m_params = params0, m_last_call = 1\<rparr>"

text \<open>
  A routed tensor of 30 experts with two elements each; in expert 0 the first element
  has count 0 and the second count 5.
\<close>

definition stats5 :: Stats where
  "stats5 = \<lparr>activations = replicate 60 0x40000000,
     values' = 0 # 0x41200000 # replicate 58 0x41400000, counts = 0 # 5 # replicate 58 3,
     ncall = 5, n_as = 30\<rparr>"

definition collector5 :: IMatrixCollector where
  "collector5 = \<lparr>m_stats = [key_up \<mapsto> stats5], m_params = params0, m_last_call = 5\<rparr>"

definition key_q :: string where
  "key_q = ''blk.0.attn_q.weight''"

text \<open>A plain tensor of two elements, observed once with one row, the activations 2 and 3.\<close>

definition stats1 :: Stats where
  "stats1 = \<lparr>activations = [0x40000000, 0x40400000], values' = [0x40800000, 0x41100000],
     counts = [1, 1], ncall = 1, n_as = 1\<rparr>"

definition collector1 :: IMatrixCollector where
  "collector1 = \<lparr>m_stats = [key_q \<mapsto> stats1], m_params = params0, m_last_call = 1\<rparr>"

text \<open>
  A routed tensor of two experts with one element each, observed once (expert 0), and a
  later \<^verbatim>\<open>GGML_OP_MUL_MAT_ID\<close> call for the same weights whose rows have three elements
  each, so that its length would be 6.
\<close>

definition stats_r :: Stats where
  "stats_r = \<lparr>activations = [0x40000000, 0], values' = [0x40800000, 0], counts = [1, 0],
     ncall = 1, n_as = 2\<rparr>"

definition collector_r :: IMatrixCollector where
  "collector_r = \<lparr>m_stats = [key_up \<mapsto> stats_r], m_params = params0, m_last_call = 1\<rparr>"

definition tensor_bad :: ggml_tensor where
  "tensor_bad = \<lparr>t_op = GGML_OP_MUL_MAT_ID, src0_name = key_up, src0_ne2 = 2,
     src1_ne0 = 3, src1_ne1 = 1, src1_ne2 = 1, src1_is_f32 = True, src1_data = (\<lambda>i. 0x40000000),
     ids_ne0 = 1, ids_ne1 = 1, ids_data = (\<lambda>row idx. 0)\<rparr>"

text \<open>
  A file that announces two entries: the entry \<open>a\<close> with \<^verbatim>\<open>ncall\<close> 1 and the one value
  4, then a name of length 5 of which only two bytes are there.
\<close>

definition file_short_name :: "byte list" where
  "file_short_name =
     [2, 0, 0, 0,  1, 0, 0, 0,  97,  1, 0, 0, 0,  1, 0, 0, 0,  0, 0, 128, 64,
      5, 0, 0, 0,  98, 108]"

text \<open>The same file cut inside the values of its second entry \<open>b\<close>.\<close>

definition file_short_data :: "byte list" where
  "file_short_data =
     [2, 0, 0, 0,  1, 0, 0, 0,  97,  1, 0, 0, 0,  1, 0, 0, 0,  0, 0, 128, 64,
      1, 0, 0, 0,  98,  1, 0, 0, 0,  1, 0, 0, 0,  0, 0]"

definition stats_a :: Stats where
  "stats_a = \<lparr>activations = [], values' = [0x40800000], counts = [1], ncall = 1, n_as = 1\<rparr>"

text \<open>
  An observation of the plain tensor \<open>blk.0.attn_q.weight\<close>: one row with the activations
  2 and 3. After it a new collector is \<open>collector1\<close>.
\<close>

definition tensor_q :: ggml_tensor where
  "tensor_q = \<lparr>t_op = GGML_OP_MUL_MAT, src0_name = ''CUDA0#blk.0.attn_q.weight#0'', src0_ne2 = 1,
     src1_ne0 = 2, src1_ne1 = 1, src1_ne2 = 1, src1_is_f32 = True,
     src1_data = (\<lambda>i. if i = 0 then 0x40000000 else 0x40400000),
     ids_ne0 = 0, ids_ne1 = 0, ids_data = (\<lambda>row idx. 0)\<rparr>"

text \<open>
  An observation of a routed tensor of two experts with one element each: one row with
  the activation 2, sent to expert 0.
\<close>

definition tensor_up :: ggml_tensor where
  "tensor_up = \<lparr>t_op = GGML_OP_MUL_MAT_ID, src0_name = key_up, src0_ne2 = 2,
     src1_ne0 = 1, src1_ne1 = 1, src1_ne2 = 1, src1_is_f32 = True, src1_data = (\<lambda>i. 0x40000000),
     ids_ne0 = 1, ids_ne1 = 1, ids_data = (\<lambda>row idx. 0)\<rparr>"

text \<open>The entry of the routed tensor after one and after two such observations.\<close>

definition stats_up1 :: Stats where
  "stats_up1 = \<lparr>activations = [0x40000000, 0], values' = [0x40800000, 0], counts = [1, 0],
     ncall = 1, n_as = 2\<rparr>"

definition stats_up2 :: Stats where
  "stats_up2 = \<lparr>activations = [0x40000000, 0], values' = [0x41000000, 0], counts = [2, 0],
     ncall = 2, n_as = 2\<rparr>"

text \<open>
  The collector after one observation of the plain tensor and two of the routed tensor.
\<close>

definition collector7 :: IMatrixCollector where
  "collector7 = \<lparr>m_stats = [key_q \<mapsto> stats1, key_up \<mapsto> stats_up2], m_params = params0,
     m_last_call = 2\<rparr>"

text \<open>What a new collector holds after it has loaded the file written from \<open>collector1\<close>.\<close>

definition collector1r :: IMatrixCollector where
  "collector1r =
     \<lparr>m_stats = [key_q \<mapsto> \<lparr>activations = [], values' = [0x40800000, 0x41100000],
        counts = [1, 1], ncall = 1, n_as = 1\<rparr>],
      m_params = params0, m_last_call = 0\<rparr>"

text \<open>
  A plain tensor of two elements observed three times with two rows each, the activations
  2 and 3: the counts are 6, the sums of squares 24 and 54.
\<close>

definition stats3 :: Stats where
  "stats3 = \<lparr>activations = [0x40000000, 0x40400000], values' = [0x41C00000, 0x42580000],
     counts = [6, 6], ncall = 3, n_as = 1\<rparr>"

definition collector3 :: IMatrixCollector where
  "collector3 = \<lparr>m_stats = [key_q \<mapsto> stats3], m_params = params0, m_last_call = 3\<rparr>"

text \<open>
  A plain tensor of one element with call count 47, count 141 and a sum of squares that is
  the binary32 number after 3.
\<close>

definition stats47 :: Stats where
  "stats47 = \<lparr>activations = [0x3C23D70A], values' = [0x40400001], counts = [141], ncall = 47,
     n_as = 1\<rparr>"

definition collector47 :: IMatrixCollector where
  "collector47 = \<lparr>m_stats = [key_q \<mapsto> stats47], m_params = params0, m_last_call = 47\<rparr>"

text \<open>What a new collector holds after it has loaded the file written from \<open>collector47\<close>.\<close>

definition collector47r :: IMatrixCollector where
  "collector47r =
     \<lparr>m_stats = [key_q \<mapsto> \<lparr>activations = [], values' = [0x3F800000], counts = [47], ncall = 47,
        n_as = 1\<rparr>],
      m_params = params0, m_last_call = 0\<rparr>"

section \<open>Lemmas: bytes and binary32\<close>

lemma unat_byte_mod: "unat (of_nat (n mod 256) :: byte) = n mod 256"
  by (simp add: unat_of_nat)

lemma le32_sum:
  fixes n :: nat
  shows "n mod 256 + 256 * (n div 256 mod 256 + 256 * (n div 256 div 256 mod 256 +
           256 * (n div 256 div 256 div 256 mod 256))) = n mod (256 * (256 * (256 * 256)))"
  unfolding mod_mult2_eq [of n 256] mod_mult2_eq [of "n div 256" 256]
    mod_mult2_eq [of "n div 256 div 256" 256]
  by simp

lemma of_le32_le32: "of_le32 (le32 w) = w"
proof -
  have "unat w < 2 ^ 32" using unsigned_less [of w] by simp
  then have "unat w mod (256 * (256 * (256 * 256))) = unat w" by simp
  then have "le_nat (le32 w) = unat w"
    unfolding le32_def le_bytes4_def le_nat_def foldr.simps o_def unat_byte_mod le32_sum by simp
  then show ?thesis
    by (simp add: of_le32_def)
qed

lemma length_le32: "length (le32 w) = 4"
  by (simp add: le32_def le_bytes4_def)

lemma string_of_bytes_of_string: "string_of_bytes (bytes_of_string s) = s"
  by (induction s) (simp_all add: string_of_bytes_def bytes_of_string_def unat_of_nat)

lemma nbits_double: "0 < m \<Longrightarrow> nbits (2 * m) = Suc (nbits m)"
  by (subst nbits.simps) simp

lemma nbits_shift: "0 < m \<Longrightarrow> nbits (m * 2 ^ k) = nbits m + k"
proof (induction k)
  case 0
  show ?case by simp
next
  case (Suc k)
  have "nbits (m * 2 ^ Suc k) = nbits (2 * (m * 2 ^ k))" by (simp add: mult.commute mult.left_commute)
  also have "\<dots> = Suc (nbits (m * 2 ^ k))" using Suc.prems by (intro nbits_double) simp
  finally show ?case using Suc by simp
qed

lemma nbits_le: "m < 2 ^ k \<Longrightarrow> nbits m \<le> k"
proof (induction k arbitrary: m)
  case 0
  then show ?case by (simp add: nbits.simps)
next
  case (Suc k)
  have "m div 2 < 2 ^ k" using Suc.prems by simp
  from Suc.IH [OF this] show ?case by (subst nbits.simps) simp
qed

lemma nbits_ge: "2 ^ k \<le> m \<Longrightarrow> k < nbits m"
proof (induction k arbitrary: m)
  case 0
  then show ?case by (subst nbits.simps) simp
next
  case (Suc k)
  have "2 ^ k \<le> m div 2" using Suc.prems by simp
  moreover have "0 < (2::nat) ^ Suc k" by simp
  then have "m \<noteq> 0" using Suc.prems by linarith
  ultimately show ?case using Suc.IH [of "m div 2"] by (subst nbits.simps) simp
qed

lemma rne_shift_exact: "rne_shift (m * 2 ^ k) k = m"
  by (simp add: rne_shift_def)

text \<open>A significand and exponent as the fields of a finite pattern hold them.\<close>

lemma f_round_exact:
  assumes m: "m < 2 ^ 24" and c: "e = - 149 \<or> 2 ^ 23 \<le> m" and e: "- 149 \<le> e" "e \<le> 104"
  shows "f_round s (m * 2 ^ k) (e - int k) = f_pack s (nat (e + 149) * 2 ^ 23 + m)"
proof (cases "m = 0")
  case True
  then have "e = - 149" using c by simp
  then show ?thesis using True by (simp add: f_round_def)
next
  case False
  then have pos: "0 < m" by simp
  have nb: "nbits (m * 2 ^ k) = nbits m + k" using pos by (rule nbits_shift)
  have t: "max (e - int k + int (nbits (m * 2 ^ k)) - 24) (- 149) = e"
  proof (cases "2 ^ 23 \<le> m")
    case True
    have "nbits m \<le> 24" using m by (rule nbits_le)
    moreover have "23 < nbits m" using True by (rule nbits_ge)
    ultimately have "nbits m = 24" by simp
    then show ?thesis using e nb by simp
  next
    case False
    then have "m < 2 ^ 23" by simp
    then have "nbits m \<le> 23" by (rule nbits_le)
    moreover have "e = - 149" using c False by simp
    ultimately show ?thesis using nb by simp
  qed
  have sc: "fp_scale (m * 2 ^ k) (e - int k) e = (m, e)"
    by (cases "k = 0") (simp_all add: fp_scale_def rne_shift_exact)
  have "nat (e + 149) \<le> 253" using e by simp
  then have "nat (e + 149) * 2 ^ 23 \<le> 253 * 2 ^ 23" by (rule mult_le_mono1)
  then have lt: "nat (e + 149) * 2 ^ 23 + m < 0x7F800000" using m by simp
  show ?thesis
    using pos lt by (simp add: f_round_def fp_round_def t sc f_encode_def)
qed

lemma unat_f32_fields:
  "unat (w :: f32) = (if f_sign w then 2 ^ 31 else 0) + f_expo w * 2 ^ 23 + f_mant w"
proof -
  define u where "u = unat w"
  define q where "q = u div 2 ^ 23"
  define r where "r = u mod 2 ^ 23"
  define q1 where "q1 = q div 256"
  define q0 where "q0 = q mod 256"
  have u: "u < 2 ^ 32" using unsigned_less [of w] by (simp add: u_def)
  have a: "u = q * 2 ^ 23 + r" by (simp add: q_def r_def)
  have b: "q = q1 * 256 + q0" by (simp add: q1_def q0_def)
  have "q1 = u div (2 ^ 23 * 256)" by (simp add: q1_def q_def div_mult2_eq)
  then have c: "q1 = u div 2 ^ 31" by simp
  have d: "q1 = (if 2 ^ 31 \<le> u then 1 else 0)"
  proof (cases "2 ^ 31 \<le> u")
    case True
    then have "u div 2 ^ 31 = 1" using u by (intro div_nat_eqI) simp_all
    then show ?thesis using True c by simp
  next
    case False
    then show ?thesis using c by simp
  qed
  have "u = (if 2 ^ 31 \<le> u then 2 ^ 31 else 0) + q0 * 2 ^ 23 + r"
    using a b d by (simp split: if_splits)
  then show ?thesis
    by (simp add: f_sign_def f_expo_def f_mant_def u_def q_def r_def q0_def)
qed

lemma f_pack_fields:
  assumes "f_isfinite w"
  shows "f_pack (f_sign w) (nat (f_exp2 w + 149) * 2 ^ 23 + f_sig w) = w"
proof -
  have "nat (f_exp2 w + 149) * 2 ^ 23 + f_sig w = f_expo w * 2 ^ 23 + f_mant w"
    by (cases "f_expo w") (simp_all add: f_exp2_def f_sig_def)
  then have "f_pack (f_sign w) (nat (f_exp2 w + 149) * 2 ^ 23 + f_sig w) = of_nat (unat w)"
    unfolding f_pack_def unat_f32_fields [of w] by (simp add: add.assoc)
  then show ?thesis by simp
qed

lemma f_fields_canonical:
  assumes "f_isfinite w"
  shows "f_sig w < 2 ^ 24" "f_exp2 w = - 149 \<or> 2 ^ 23 \<le> f_sig w" "- 149 \<le> f_exp2 w" "f_exp2 w \<le> 104"
proof -
  have m: "f_mant w < 2 ^ 23" by (simp add: f_mant_def)
  have e: "f_expo w < 255" using assms by (simp add: f_isfinite_def f_expo_def less_le)
  show "f_sig w < 2 ^ 24" using m by (simp add: f_sig_def)
  show "f_exp2 w = - 149 \<or> 2 ^ 23 \<le> f_sig w" by (simp add: f_sig_def f_exp2_def)
  show "- 149 \<le> f_exp2 w" by (simp add: f_exp2_def)
  show "f_exp2 w \<le> 104" using e by (simp add: f_exp2_def)
qed

lemma f_round_fields:
  assumes "f_isfinite w"
  shows "f_round (f_sign w) (f_sig w * 2 ^ k) (f_exp2 w - int k) = w"
  using f_round_exact [OF f_fields_canonical [OF assms]] f_pack_fields [OF assms] by simp

lemma f_one_fields:
  "f_sign f_one = False" "f_expo f_one = 127" "f_mant f_one = 0" "f_sig f_one = 2 ^ 23"
  "f_exp2 f_one = - 23"
  by (simp_all add: f_one_def f_sign_def f_expo_def f_mant_def f_sig_def f_exp2_def)

lemma f_finite_not_special: "f_isfinite w \<Longrightarrow> \<not> f_isnan w \<and> \<not> f_isinf w"
  by (simp add: f_isfinite_def f_isnan_def f_isinf_def)

lemma f_one_not_special: "\<not> f_isnan f_one" "\<not> f_isinf f_one"
  by (simp_all add: f_isnan_def f_isinf_def f_one_fields)

lemma f_mul_one:
  assumes "f_isfinite w"
  shows "f_mul w f_one = w"
proof -
  have "f_mul w f_one = f_round (f_sign w) (f_sig w * 2 ^ 23) (f_exp2 w - int 23)"
    using f_finite_not_special [OF assms]
    by (simp add: f_mul_def f_one_fields f_one_not_special)
  then show ?thesis using f_round_fields [OF assms, of 23] by simp
qed

lemma f_div_one:
  assumes "f_isfinite w"
  shows "f_div w f_one = w"
proof -
  have q: "quot_sticky (f_sig w * 2 ^ 64) (2 ^ 23) = f_sig w * 2 ^ 42"
  proof -
    have "f_sig w * 2 ^ 64 = f_sig w * 2 ^ 41 * 2 ^ 23" by simp
    then have "f_sig w * 2 ^ 64 div 2 ^ 23 = f_sig w * 2 ^ 41" "f_sig w * 2 ^ 64 mod 2 ^ 23 = 0"
      by (simp_all only: nonzero_mult_div_cancel_right mod_mult_self2_is_0) simp_all
    then show ?thesis unfolding quot_sticky_def by simp
  qed
  have "f_div w f_one = f_round (f_sign w) (f_sig w * 2 ^ 42) (f_exp2 w - int 42)"
    using f_finite_not_special [OF assms] q
    by (simp add: f_div_def f_one_fields f_one_not_special)
  then show ?thesis using f_round_fields [OF assms, of 42] by simp
qed

lemma f_of_int_1: "f_of_int 1 = f_one"
  by (simp add: f32_eval)

section \<open>Lemmas: \<^verbatim>\<open>save_imatrix\<close>\<close>

lemma length_fill_block: "length (fill_block npe i v xs) = length xs"
proof -
  have "length (fold (\<lambda>j ys. ys[i * npe + j := v]) js xs) = length xs" for js
    by (induction js arbitrary: xs) simp_all
  then show ?thesis by (simp add: fill_block_def)
qed

lemma nth_fold_update:
  "k < length xs \<Longrightarrow>
   fold (\<lambda>j ys. ys[b + j := v]) js xs ! k = (if \<exists>j\<in>set js. k = b + j then v else xs ! k)"
proof (induction js arbitrary: xs)
  case Nil
  show ?case by simp
next
  case (Cons j js)
  have "k < length (xs[b + j := v])" using Cons.prems by simp
  from Cons.IH [OF this] show ?case
    using Cons.prems by (auto simp: nth_list_update)
qed

lemma nth_fill_block:
  assumes "k < length xs"
  shows "fill_block npe i v xs ! k = (if i * npe \<le> k \<and> k < i * npe + npe then v else xs ! k)"
proof -
  have "(\<exists>j\<in>set [0..<npe]. k = i * npe + j) \<longleftrightarrow> (i * npe \<le> k \<and> k < i * npe + npe)"
    by (auto intro: bexI [of _ "k - i * npe"])
  then show ?thesis
    using nth_fold_update [OF assms, of "i * npe" v "[0..<npe]"] by (simp add: fill_block_def)
qed

lemma repair_fields:
  "activations (repair npe bad e) = activations e \<and> ncall (repair npe bad e) = ncall e \<and>
   n_as (repair npe bad e) = n_as e \<and> length (counts (repair npe bad e)) = length (counts e) \<and>
   length (values' (repair npe bad e)) = length (values' e)"
  unfolding repair_def
  by (induction bad arbitrary: e) (simp_all add: repair_expert_def length_fill_block)

lemma nth_counts_repair:
  "k < length (counts e) \<Longrightarrow>
   counts (repair npe bad e) ! k =
     (if \<exists>i\<in>set bad. i * npe \<le> k \<and> k < i * npe + npe then 1 else counts e ! k)"
  unfolding repair_def
proof (induction bad arbitrary: e)
  case Nil
  show ?case by simp
next
  case (Cons i bad)
  have "k < length (counts (repair_expert npe i e))"
    using Cons.prems by (simp add: repair_expert_def length_fill_block)
  from Cons.IH [OF this] show ?case
    using Cons.prems by (auto simp: repair_expert_def nth_fill_block)
qed

lemma nth_values_repair:
  "k < length (values' e) \<Longrightarrow>
   values' (repair npe bad e) ! k =
     (if \<exists>i\<in>set bad. i * npe \<le> k \<and> k < i * npe + npe then f_one else values' e ! k)"
  unfolding repair_def
proof (induction bad arbitrary: e)
  case Nil
  show ?case by simp
next
  case (Cons i bad)
  have "k < length (values' (repair_expert npe i e))"
    using Cons.prems by (simp add: repair_expert_def length_fill_block)
  from Cons.IH [OF this] show ?case
    using Cons.prems by (auto simp: repair_expert_def nth_fill_block)
qed

lemma bad_of_in_range:
  assumes "i \<in> set (bad_of e)" "1 < n_as e"
  shows "i * n_per_expert e + n_per_expert e \<le> length (counts e)"
proof -
  have "i < nat (n_as e)" using assms(1) by (simp add: bad_of_def bad_experts_def)
  then have "Suc i \<le> nat (n_as e)" by simp
  then have "Suc i * n_per_expert e \<le> nat (n_as e) * n_per_expert e"
    by (rule mult_le_mono1)
  also have "\<dots> \<le> length (counts e)"
    by (simp add: n_per_expert_def)
  finally show ?thesis by simp
qed

lemma repair_in_range_wf:
  assumes "stats_wf e" "1 < n_as e"
  shows "repair_in_range (n_per_expert e) (bad_of e) e"
  using assms bad_of_in_range [of _ e]
  by (simp add: repair_in_range_def list_all_iff stats_wf_def)

lemma classify_Repair_n_as: "classify e = Repair \<Longrightarrow> 1 < n_as e"
  by (simp add: classify_def split: if_splits)

lemma stats_wf_entry_after: "stats_wf e \<Longrightarrow> stats_wf (entry_after e)"
  by (simp add: stats_wf_def entry_after_def repair_fields)

lemma save_scan_wf:
  assumes "distinct ks" "\<forall>k\<in>set ks. \<forall>e. m k = Some e \<longrightarrow> stats_wf e"
  shows "save_scan ks m ts = Ok (stats_after ks m, ts @ to_store ks m)"
  using assms
proof (induction ks arbitrary: m ts)
  case Nil
  show ?case by (simp add: stats_after_def to_store_def)
next
  case (Cons k ks)
  show ?case
  proof (cases "m k")
    case None
    have "save_scan ks m ts = Ok (stats_after ks m, ts @ to_store ks m)"
      using Cons.prems by (intro Cons.IH) auto
    moreover have "stats_after (k # ks) m = stats_after ks m"
      using None by (auto simp: stats_after_def)
    ultimately show ?thesis using None by (simp add: to_store_def)
  next
    case (Some e)
    have wf: "stats_wf e" using Cons.prems Some by simp
    have k: "k \<notin> set ks" using Cons.prems by simp
    show ?thesis
    proof (cases "classify e")
      case Skip
      have "save_scan ks m ts = Ok (stats_after ks m, ts @ to_store ks m)"
        using Cons.prems by (intro Cons.IH) auto
      moreover have "stats_after (k # ks) m = stats_after ks m"
        using Some Skip by (auto simp: stats_after_def entry_after_def)
      ultimately show ?thesis using Some Skip by (simp add: to_store_def kept_def)
    next
      case Store
      have "save_scan ks m (ts @ [k]) = Ok (stats_after ks m, (ts @ [k]) @ to_store ks m)"
        using Cons.prems by (intro Cons.IH) auto
      moreover have "stats_after (k # ks) m = stats_after ks m"
        using Some Store by (auto simp: stats_after_def entry_after_def)
      ultimately show ?thesis using Some Store by (simp add: to_store_def kept_def)
    next
      case Repair
      let ?e' = "repair (n_per_expert e) (bad_of e) e"
      let ?m' = "m(k \<mapsto> ?e')"
      have rng: "repair_in_range (n_per_expert e) (bad_of e) e"
        using wf Repair by (intro repair_in_range_wf classify_Repair_n_as)
      have "save_scan ks ?m' (ts @ [k]) = Ok (stats_after ks ?m', (ts @ [k]) @ to_store ks ?m')"
        using Cons.prems k by (intro Cons.IH) auto
      moreover have "stats_after ks ?m' = stats_after (k # ks) m"
        using Some Repair k by (auto simp: stats_after_def entry_after_def)
      moreover have "to_store ks ?m' = to_store ks m"
        using k by (auto simp: to_store_def intro: filter_cong)
      ultimately show ?thesis using Some Repair rng by (simp add: to_store_def kept_def)
    qed
  qed
qed

lemma write_entries_wf:
  assumes "\<forall>k\<in>set ts. \<exists>e. m k = Some e \<and> stats_wf e"
  shows "write_entries m ts = Ok (concat (map (\<lambda>k. entry_bytes k (the (m k))) ts))"
  using assms by (induction ts) (auto simp: stats_wf_def)

lemma set_to_store: "set (to_store order m) \<subseteq> set order"
  by (auto simp: to_store_def)

lemma stats_after_wf:
  assumes "\<forall>k\<in>set order. \<exists>e. m k = Some e \<and> stats_wf e" "k \<in> set order"
  shows "\<exists>e. stats_after order m k = Some e \<and> stats_wf e"
proof -
  obtain e where "m k = Some e" "stats_wf e" using assms by blast
  then show ?thesis using assms(2) by (simp add: stats_after_def stats_wf_entry_after)
qed

lemma order_wfD:
  assumes "order_wf order c"
  shows "distinct order" "\<forall>k\<in>set order. \<exists>e. m_stats c k = Some e \<and> stats_wf e"
  using assms by (auto simp: order_wf_def list_all_iff split: option.splits)

lemma save_imatrix_wf:
  assumes "order_wf order c"
  shows "save_imatrix order nc c =
     Ok (c\<lparr>m_stats := stats_after order (m_stats c)\<rparr>, save_fname (m_params c) nc, snapshot order c)"
proof -
  note wf = order_wfD [OF assms]
  have scan: "save_scan order (m_stats c) [] =
      Ok (stats_after order (m_stats c), to_store order (m_stats c))"
  proof -
    have "\<forall>k\<in>set order. \<forall>e. m_stats c k = Some e \<longrightarrow> stats_wf e"
      using wf(2) by fastforce
    from save_scan_wf [OF wf(1) this, of "[]"] show ?thesis by simp
  qed
  have "\<forall>k\<in>set (to_store order (m_stats c)).
          \<exists>e. stats_after order (m_stats c) k = Some e \<and> stats_wf e"
    using stats_after_wf [OF wf(2)] set_to_store [of order "m_stats c"] by blast
  from write_entries_wf [OF this] scan show ?thesis
    by (simp add: save_imatrix_def snapshot_def)
qed

lemma classify_partial:
  assumes "1 < n_as e" "0 < count_zeros (counts e)" "count_zeros (counts e) < length (counts e)"
  shows "classify e = (if int (length (bad_of e)) < round_n_as_005 (n_as e) then Repair else Skip)"
proof -
  have "counts e \<noteq> []" using assms(3) by auto
  then show ?thesis using assms unfolding classify_def by simp
qed

lemma round_n_as_005_20: "round_n_as_005 20 = 1"
  by (simp add: round_n_as_005_def fp_round_def fp_scale_def nbits.simps rne_shift_def)

lemma round_n_as_005_30: "round_n_as_005 30 = 2"
  by (simp add: round_n_as_005_def fp_round_def fp_scale_def nbits.simps rne_shift_def)


lemma count_zeros_Nil: "count_zeros [] = 0"
  by (simp add: count_zeros_def)

lemma count_zeros_Cons:
  "count_zeros (c # cs) = (if c = 0 then Suc (count_zeros cs) else count_zeros cs)"
  by (simp add: count_zeros_def)

lemma count_zeros_replicate: "count_zeros (replicate n c) = (if c = 0 then n else 0)"
  by (simp add: count_zeros_def)

lemmas count_zeros_eval = count_zeros_Nil count_zeros_Cons count_zeros_replicate

lemma bad_of_stats20: "bad_of stats20 = [0]"
  by (simp add: stats20_def count_zeros_eval bad_of_def bad_experts_def n_per_expert_def
      expert_block_def upt_rec)

lemma stats20_facts:
  "n_as stats20 = 20" "length (counts stats20) = 20" "count_zeros (counts stats20) = 1"
  "length (values' stats20) = 20"
  by (simp_all add: stats20_def count_zeros_eval)

lemma classify_stats20: "classify stats20 = Skip"
  by (simp add: classify_def bad_of_stats20 round_n_as_005_20 stats20_facts)

lemma bad_of_stats30: "bad_of stats30 = [0]"
  by (simp add: stats30_def count_zeros_eval bad_of_def bad_experts_def n_per_expert_def
      expert_block_def upt_rec)

lemma stats30_facts:
  "n_as stats30 = 30" "length (counts stats30) = 30" "count_zeros (counts stats30) = 1"
  "length (values' stats30) = 30" "n_per_expert stats30 = 1"
  by (simp_all add: stats30_def count_zeros_eval n_per_expert_def)

lemma order_wf_collector30: "order_wf [key_up] collector30"
  by (simp add: order_wf_def collector30_def stats_wf_def stats30_facts)

lemma count_zeros_pos_iff: "0 < count_zeros cs \<longleftrightarrow> (\<exists>j<length cs. cs ! j = 0)"
  by (auto simp: count_zeros_def filter_empty_conv in_set_conv_nth)

lemma bad_of_iff:
  assumes "1 < n_as e"
  shows "x \<in> set (bad_of e) \<longleftrightarrow>
     x < nat (n_as e) \<and> (\<exists>j<n_per_expert e. counts e ! (x * n_per_expert e + j) = 0)"
proof (cases "x < nat (n_as e)")
  case False
  then show ?thesis by (simp add: bad_of_def bad_experts_def)
next
  case True
  then have "Suc x \<le> nat (n_as e)" by simp
  then have "Suc x * n_per_expert e \<le> nat (n_as e) * n_per_expert e" by (rule mult_le_mono1)
  also have "\<dots> \<le> length (counts e)" by (simp add: n_per_expert_def)
  finally have rng: "x * n_per_expert e + n_per_expert e \<le> length (counts e)" by simp
  then have len: "length (expert_block (n_per_expert e) x (counts e)) = n_per_expert e"
    by (simp add: expert_block_def)
  have nth: "expert_block (n_per_expert e) x (counts e) ! j = counts e ! (x * n_per_expert e + j)"
    if "j < n_per_expert e" for j
    using that rng by (simp add: expert_block_def)
  show ?thesis
    using True by (auto simp: bad_of_def bad_experts_def count_zeros_pos_iff len nth)
qed

lemma in_bad_expert_iff:
  assumes "1 < n_as e"
  shows "in_bad_expert e i \<longleftrightarrow>
     (\<exists>x\<in>set (bad_of e). x * n_per_expert e \<le> i \<and> i < x * n_per_expert e + n_per_expert e)"
  unfolding in_bad_expert_def using bad_of_iff [OF assms] by blast

lemma bad_of_stats5: "bad_of stats5 = [0]"
  by (simp add: stats5_def count_zeros_eval bad_of_def bad_experts_def n_per_expert_def
      expert_block_def upt_rec)

lemma stats5_facts:
  "n_as stats5 = 30" "length (counts stats5) = 60" "count_zeros (counts stats5) = 1"
  "length (values' stats5) = 60" "n_per_expert stats5 = 2" "counts stats5 ! 1 = 5"
  "values' stats5 ! 1 = 0x41200000" "counts stats5 ! 0 = 0"
  "counts stats5 ! Suc 0 = 5" "values' stats5 ! Suc 0 = 0x41200000"
  by (simp_all add: stats5_def count_zeros_eval n_per_expert_def)

lemma classify_stats5: "classify stats5 = Repair"
  by (simp add: classify_def bad_of_stats5 round_n_as_005_30 stats5_facts)

lemma order_wf_collector5: "order_wf [key_up] collector5"
  by (simp add: order_wf_def collector5_def stats_wf_def stats5_facts)

lemma in_bad_expert_stats5: "in_bad_expert stats5 1"
  by (simp add: in_bad_expert_iff stats5_facts bad_of_stats5)

lemma repair_no_bad:
  assumes n: "1 < n_as e"
  shows "bad_of (repair (n_per_expert e) (bad_of e) e) = []"
proof -
  let ?e' = "repair (n_per_expert e) (bad_of e) e"
  have f: "n_as ?e' = n_as e" "length (counts ?e') = length (counts e)"
    using repair_fields [of "n_per_expert e" "bad_of e" e] by simp_all
  then have npe: "n_per_expert ?e' = n_per_expert e" by (simp add: n_per_expert_def)
  have "x \<notin> set (bad_of ?e')" for x
  proof
    assume "x \<in> set (bad_of ?e')"
    then obtain j where x: "x < nat (n_as e)" and j: "j < n_per_expert e"
      and z: "counts ?e' ! (x * n_per_expert e + j) = 0"
      using bad_of_iff [of ?e' x] n f npe by auto
    let ?i = "x * n_per_expert e + j"
    have "Suc x \<le> nat (n_as e)" using x by simp
    then have "Suc x * n_per_expert e \<le> nat (n_as e) * n_per_expert e" by (rule mult_le_mono1)
    also have "\<dots> \<le> length (counts e)" by (simp add: n_per_expert_def)
    finally have i: "?i < length (counts e)" using j by simp
    have c: "counts ?e' ! ?i = (if in_bad_expert e ?i then 1 else counts e ! ?i)"
      using nth_counts_repair [OF i] by (simp add: in_bad_expert_iff [OF n])
    show False
    proof (cases "in_bad_expert e ?i")
      case True
      then show False using c z by simp
    next
      case False
      then have "counts e ! ?i = 0" using c z by simp
      then have "in_bad_expert e ?i" unfolding in_bad_expert_def using x j by auto
      then show False using False by simp
    qed
  qed
  then show ?thesis by (cases "bad_of ?e'") auto
qed

lemma entry_after_idem: "entry_after (entry_after e) = entry_after e"
proof (cases "classify e = Repair")
  case False
  then show ?thesis by (simp add: entry_after_def)
next
  case True
  let ?e' = "repair (n_per_expert e) (bad_of e) e"
  have "bad_of ?e' = []" using True by (intro repair_no_bad classify_Repair_n_as)
  then have "entry_after ?e' = ?e'" by (simp add: entry_after_def repair_def)
  then show ?thesis using True by (simp add: entry_after_def)
qed

lemma repair_changes:
  assumes n: "1 < n_as e" and b: "bad_of e \<noteq> []"
  shows "repair (n_per_expert e) (bad_of e) e \<noteq> e"
proof -
  let ?e' = "repair (n_per_expert e) (bad_of e) e"
  obtain x where "x \<in> set (bad_of e)" using b by (cases "bad_of e") auto
  then obtain j where x: "x < nat (n_as e)" and j: "j < n_per_expert e"
    and z: "counts e ! (x * n_per_expert e + j) = 0"
    using bad_of_iff [OF n] by auto
  let ?i = "x * n_per_expert e + j"
  have "Suc x \<le> nat (n_as e)" using x by simp
  then have "Suc x * n_per_expert e \<le> nat (n_as e) * n_per_expert e" by (rule mult_le_mono1)
  also have "\<dots> \<le> length (counts e)" by (simp add: n_per_expert_def)
  finally have i: "?i < length (counts e)" using j by simp
  have "in_bad_expert e ?i" unfolding in_bad_expert_def using x j z by auto
  then have "counts ?e' ! ?i = 1"
    using nth_counts_repair [OF i] by (simp add: in_bad_expert_iff [OF n])
  then have "counts ?e' \<noteq> counts e" using z by auto
  then show ?thesis by auto
qed

lemma order_wf_after:
  assumes "order_wf order c"
  shows "order_wf order (c\<lparr>m_stats := stats_after order (m_stats c)\<rparr>)"
  using order_wfD [OF assms] stats_after_wf [of order "m_stats c"]
  by (fastforce simp: order_wf_def list_all_iff split: option.splits)

lemma map_nth_fun: "map (\<lambda>i. f (xs ! i)) [0..<length xs] = map f xs"
  by (rule nth_equalityI) simp_all

text \<open>The value bytes of a stored entry.\<close>

lemma entry_bytes_ones:
  assumes "ncall stat = 1"
    and "\<forall>i<length (values' stat). counts stat ! i = 1 \<and> f_isfinite (values' stat ! i)"
  shows "entry_bytes k stat =
     le32 (of_nat (length k)) @ bytes_of_string k @ le32 1 @ le32 (of_nat (length (values' stat))) @
     concat (map le32 (values' stat))"
proof -
  have "tmp_value stat i = values' stat ! i" if "i < length (values' stat)" for i
    using assms that by (simp add: tmp_value_def f_of_int_1 f_div_one f_mul_one)
  then have "map (\<lambda>i. le32 (tmp_value stat i)) [0..<length (values' stat)] =
      map (\<lambda>i. le32 (values' stat ! i)) [0..<length (values' stat)]"
    by simp
  also have "\<dots> = map le32 (values' stat)"
    by (rule map_nth_fun)
  finally show ?thesis using assms(1) by (simp add: entry_bytes_def)
qed

lemma stats1_facts:
  "ncall stats1 = 1" "values' stats1 = [0x40800000, 0x41100000]" "counts stats1 = [1, 1]"
  "n_as stats1 = 1"
  by (simp_all add: stats1_def)

lemma collector1_facts:
  "m_stats collector1 key_q = Some stats1" "m_params collector1 = params0"
  "m_last_call collector1 = 1"
  by (simp_all add: collector1_def)

lemma classify_stats1: "classify stats1 = Store"
  by (simp add: classify_def stats1_facts count_zeros_eval)

lemma order_wf_collector1: "order_wf [key_q] collector1"
  by (simp add: order_wf_def collector1_def stats_wf_def stats1_facts)

lemma to_store_collector1: "to_store [key_q] (m_stats collector1) = [key_q]"
  by (simp add: to_store_def collector1_def kept_def classify_stats1)

lemma le32_small: "n < 256 \<Longrightarrow> le32 (of_nat n) = [of_nat n, 0, 0, 0]"
  by (simp add: le32_def le_bytes4_def unat_of_nat)

lemma finite_stats1:
  "\<forall>i<length (values' stats1). counts stats1 ! i = 1 \<and> f_isfinite (values' stats1 ! i)"
proof -
  have f: "f_isfinite 0x40800000" "f_isfinite 0x41100000"
    by (simp_all add: f_isfinite_def f_expo_def)
  show ?thesis
    using f by (auto simp: stats1_facts less_Suc_eq)
qed

section \<open>Lemmas: the two short files\<close>

lemma entry_Some: "m_stats (fst w) k = Some e \<Longrightarrow> entry k w = e"
  by (simp add: entry_def lookup_or_new_def)

lemma set_entry_same: "m_stats (fst w) k = Some e \<Longrightarrow> set_entry k e w = w"
  by (cases w) (simp add: set_entry_def fun_upd_idem)

lemma filter_tensor_name_key_up: "filter_tensor_name key_up = key_up"
  by (simp add: filter_tensor_name_def key_up_def)

lemma load_entries_pos:
  "0 < n \<Longrightarrow> load_entries n bs c =
     (case load_entry bs c of
        Next bs' c' \<Rightarrow> load_entries (n - 1) bs' c'
      | Return b c' \<Rightarrow> Ok (b, c')
      | Crash \<Rightarrow> Fault)"
  by (cases n) (simp_all split: load_step.split)

lemma char_of_97: "char_of (97 :: nat) = CHR ''a''"
proof -
  have "char_of (97 :: nat) = char_of (of_char (CHR ''a'') :: nat)" by simp
  also have "\<dots> = CHR ''a''" by (rule char_of_char)
  finally show ?thesis .
qed

lemma read_i32_Cons:
  "read_i32 (a # b # c # d # r) = Some (of_le32 [a, b, c, d], r)"
  by (simp add: read_i32_def read_bytes_def)

lemma f_add_zero_4: "f_add f_zero 0x40800000 = 0x40800000"
  by (simp add: f32_eval)

lemma load_entry_a:
  "load_entry ([1, 0, 0, 0,  97,  1, 0, 0, 0,  1, 0, 0, 0,  0, 0, 128, 64] @ r) (collector0 params0) =
     Next r ((collector0 params0)\<lparr>m_stats := [''a'' \<mapsto> stats_a]\<rparr>)"
  by (simp add: load_entry_def read_i32_Cons of_le32_def le_nat_def read_bytes_def read_f32s_def
      c_str_def string_of_bytes_def char_of_97 load_merge_def lookup_or_new_def collector0_def
      Stats0_def sized_def resize_def merge_entry_def f_add_zero_4 [unfolded f_zero_def] f_zero_def
      stats_a_def)

text \<open>A turn of the loop that returns: with \<^verbatim>\<open>false\<close>, the map untouched or cleared.\<close>

lemma load_entry_Return:
  assumes "load_entry bs c = Return b c'"
  shows "\<not> b \<and> (c' = c \<or> c' = c\<lparr>m_stats := Map.empty\<rparr>)"
  using assms
  by (auto simp: load_entry_def load_merge_def split: option.splits if_splits prod.splits)

text \<open>A failure after the name (here in the values of the second entry) clears the map.\<close>

lemma load_short_data_clears:
  "load_imatrix (Some file_short_data) (collector0 params0) =
     Ok (False, (collector0 params0)\<lparr>m_stats := Map.empty\<rparr>)"
proof -
  have "load_entry [1, 0, 0, 0,  98,  1, 0, 0, 0,  1, 0, 0, 0,  0, 0] c =
      Return False (c\<lparr>m_stats := Map.empty\<rparr>)" for c
    by (simp add: load_entry_def read_i32_Cons of_le32_def le_nat_def read_bytes_def
        read_f32s_def)
  then show ?thesis
    using load_entry_a [of "[1, 0, 0, 0,  98,  1, 0, 0, 0,  1, 0, 0, 0,  0, 0]"]
    by (simp add: load_imatrix_def file_short_data_def read_i32_Cons of_le32_def le_nat_def
        load_entries_pos)
qed

section \<open>Lemmas: \<^verbatim>\<open>collect_imatrix\<close> and \<^verbatim>\<open>m_last_call\<close>\<close>

lemma iter_invariant:
  assumes "iter f js s = Ok s'" "P s" "\<And>j a a'. P a \<Longrightarrow> f j a = Ok a' \<Longrightarrow> P a'"
  shows "P s'"
  using assms(1,2)
proof (induction js arbitrary: s)
  case Nil
  then show ?case by simp
next
  case (Cons j js)
  then obtain a where a: "f j s = Ok a" "iter f js a = Ok s'"
    by (auto split: result.splits)
  have "P a" using Cons.prems(2) a(1) by (rule assms(3))
  with a(2) show ?case by (rule Cons.IH)
qed

lemma add_sample_ncall: "add_sample k x e = Ok e' \<Longrightarrow> ncall e' = ncall e"
  by (auto simp: add_sample_def split: if_splits)

lemma add_row_ncall: "add_row n st x e = Ok e' \<Longrightarrow> ncall e' = ncall e"
  unfolding add_row_def
  by (erule iter_invariant [where P = "\<lambda>a. ncall a = ncall e"]) (simp_all add: add_sample_ncall)

lemma routed_row_ncall: "routed_row t ex idx row e = Ok e' \<Longrightarrow> ncall e' = ncall e"
  by (auto simp: routed_row_def add_row_ncall split: if_splits)

text \<open>A step on the entry of a key that is in the map and keeps \<^verbatim>\<open>ncall\<close>.\<close>

lemma on_entry_calls:
  assumes "on_entry k f w = Ok w'" "ncalls (fst w) k \<noteq> None"
    and "\<And>e e'. f e = Ok e' \<Longrightarrow> ncall e' = ncall e"
  shows "ncalls (fst w') = ncalls (fst w) \<and> m_last_call (fst w') = m_last_call (fst w) \<and>
         m_params (fst w') = m_params (fst w)"
proof -
  obtain e where e: "m_stats (fst w) k = Some e" using assms(2) by (auto simp: ncalls_def)
  then have en: "entry k w = e" by (simp add: entry_def lookup_or_new_def)
  obtain e' where e': "f e = Ok e'" "w' = set_entry k e' w"
    using assms(1) en by (auto simp: on_entry_def split: result.splits)
  have "ncall e' = ncall e" using e'(1) by (rule assms(3))
  then have "ncalls (fst w') = ncalls (fst w)"
    using e by (auto simp: ncalls_def e'(2) set_entry_def fun_eq_iff)
  then show ?thesis by (simp add: e'(2) set_entry_def)
qed

lemma save_scan_ncall:
  "save_scan ks m ts = Ok (m', ts') \<Longrightarrow> map_option ncall (m' k) = map_option ncall (m k)"
proof (induction ks arbitrary: m ts)
  case Nil
  then show ?case by simp
next
  case (Cons a ks)
  show ?case
  proof (cases "m a")
    case None
    then show ?thesis using Cons by simp
  next
    case (Some e)
    show ?thesis
    proof (cases "classify e")
      case Skip
      then show ?thesis using Cons Some by simp
    next
      case Store
      then show ?thesis using Cons Some by simp
    next
      case Repair
      then have "save_scan ks (m(a \<mapsto> repair (n_per_expert e) (bad_of e) e)) (ts @ [a]) = Ok (m', ts')"
        using Cons.prems Some by (simp split: if_splits)
      from Cons.IH [OF this] show ?thesis
        using Some by (simp add: repair_fields split: if_splits)
    qed
  qed
qed

lemma save_imatrix_calls:
  assumes "save_imatrix order nc c = Ok (c', f)"
  shows "ncalls c' = ncalls c \<and> m_last_call c' = m_last_call c \<and> m_params c' = m_params c"
proof -
  obtain m ts where s: "save_scan order (m_stats c) [] = Ok (m, ts)" and c': "c' = c\<lparr>m_stats := m\<rparr>"
    using assms by (auto simp: save_imatrix_def split: result.splits prod.splits)
  have "ncalls c' k = ncalls c k" for k
    using save_scan_ncall [OF s, of k] by (simp add: ncalls_def c')
  then show ?thesis by (auto simp: c')
qed

lemma do_save_calls:
  assumes "do_save order nc w = Ok w'"
  shows "ncalls (fst w') = ncalls (fst w) \<and> m_last_call (fst w') = m_last_call (fst w) \<and>
         m_params (fst w') = m_params (fst w)"
proof -
  obtain c f where "save_imatrix order nc (fst w) = Ok (c, f)" "w' = (c, snd w @ [f])"
    using assms by (auto simp: do_save_def split: result.splits prod.splits)
  then show ?thesis using save_imatrix_calls [of order nc "fst w" c f] by simp
qed

lemma periodic_calls:
  assumes "periodic order w = Ok w'"
  shows "ncalls (fst w') = ncalls (fst w) \<and> m_last_call (fst w') = m_last_call (fst w)"
proof -
  obtain w1 where 1: "(if sint (m_last_call (fst w)) mod sint (n_out_freq (m_params (fst w))) = 0
         then do_save order (- 1) w else Ok w) = Ok w1"
    and 2: "(if 0 < sint (n_save_freq (m_params (fst w1))) \<and>
                  sint (m_last_call (fst w1)) mod sint (n_save_freq (m_params (fst w1))) = 0
               then do_save order (m_last_call (fst w1)) w1 else Ok w1) = Ok w'"
    using assms by (auto simp: periodic_def and_then_def split: if_splits result.splits)
  have a: "ncalls (fst w1) = ncalls (fst w) \<and> m_last_call (fst w1) = m_last_call (fst w)"
    using 1 do_save_calls [of order "- 1" w w1] by (auto split: if_splits)
  have b: "ncalls (fst w') = ncalls (fst w1) \<and> m_last_call (fst w') = m_last_call (fst w1)"
    using 2 do_save_calls [of order "m_last_call (fst w1)" w1 w'] by (auto split: if_splits)
  show ?thesis using a b by simp
qed

lemma ncalls_last_call_update: "ncalls (c\<lparr>m_last_call := v\<rparr>) = ncalls c"
  by (simp add: ncalls_def fun_eq_iff)

lemma checkpoint_calls:
  assumes "checkpoint order k w = Ok w'" "ncalls (fst w) k = Some v"
  shows "ncalls (fst w') = ncalls (fst w) \<and>
         m_last_call (fst w') = (if sint (m_last_call (fst w)) < sint v then v else m_last_call (fst w))"
proof -
  have en: "ncall (entry k w) = v"
    using assms(2) by (auto simp: ncalls_def entry_def lookup_or_new_def)
  show ?thesis
  proof (cases "sint (m_last_call (fst w)) < sint v")
    case True
    then have "periodic order ((fst w)\<lparr>m_last_call := v\<rparr>, snd w) = Ok w'"
      using assms(1) en by (simp add: checkpoint_def)
    from periodic_calls [OF this] show ?thesis using True by (simp add: ncalls_last_call_update)
  next
    case False
    then show ?thesis using assms(1) en by (simp add: checkpoint_def)
  qed
qed


lemma sint_succ:
  fixes v :: i32
  assumes "sint v < 2147483647"
  shows "sint (v + 1) = sint v + 1"
proof -
  have "- (2 ^ 31) \<le> sint v" using sint_ge [of v] by simp
  then have "signed_take_bit 31 (sint v + 1) = sint v + 1"
    using assms by (simp add: signed_take_bit_int_eq_self_iff)
  then show ?thesis by (simp add: sint_word_ariths)
qed

text \<open>The call counts after an observation of key \<open>k\<close> whose count was \<open>v\<close>.\<close>

lemma last_call_is_max_step:
  assumes inv: "last_call_is_max l n" and v: "v = (case n k of None \<Rightarrow> 0 | Some x \<Rightarrow> x)"
    and lt: "sint v < 2147483647"
  shows "last_call_is_max (if sint l < sint (v + 1) then v + 1 else l) (n(k \<mapsto> v + 1))"
proof -
  have s: "sint (v + 1) = sint v + 1" using lt by (rule sint_succ)
  have l0: "0 \<le> sint l" and le: "\<And>k x. n k = Some x \<Longrightarrow> sint x \<le> sint l"
    and ex: "l = 0 \<and> n = Map.empty \<or> (\<exists>k. n k = Some l)"
    using inv by (auto simp: last_call_is_max_def)
  have vl: "sint v \<le> sint l"
    using v le l0 by (cases "n k") auto
  show ?thesis
  proof (cases "sint l < sint (v + 1)")
    case True
    then have "sint v = sint l" using s vl by simp
    then show ?thesis
      using True l0 le s by (fastforce simp: last_call_is_max_def)
  next
    case False
    then have n0: "sint v < sint l" using s by simp
    have "\<exists>k'. k' \<noteq> k \<and> n k' = Some l"
    proof -
      from ex show ?thesis
      proof
        assume "l = 0 \<and> n = Map.empty"
        then have "v = 0" "l = 0" using v by simp_all
        then show ?thesis using n0 by simp
      next
        assume "\<exists>k'. n k' = Some l"
        then obtain k' where k': "n k' = Some l" ..
        have "k' \<noteq> k"
        proof
          assume "k' = k"
          then have "v = l" using v k' by simp
          then show False using n0 by simp
        qed
        then show ?thesis using k' by blast
      qed
    qed
    then show ?thesis
      using False l0 le s n0 by (fastforce simp: last_call_is_max_def)
  qed
qed

lemma entry_ncall: "ncall (entry k w) = (case ncalls (fst w) k of None \<Rightarrow> 0 | Some x \<Rightarrow> x)"
  by (simp add: entry_def lookup_or_new_def ncalls_def Stats0_def split: option.splits)

lemma ncalls_set_entry: "ncalls (fst (set_entry k e w)) = (ncalls (fst w))(k \<mapsto> ncall e)"
  by (simp add: ncalls_def set_entry_def fun_eq_iff)

lemma set_entry_others:
  "m_last_call (fst (set_entry k e w)) = m_last_call (fst w)"
  "m_params (fst (set_entry k e w)) = m_params (fst w)"
  by (simp_all add: set_entry_def)

lemma collect_plain_calls:
  assumes "collect_plain order t k w = Ok w'"
  shows "ncalls (fst w') = (ncalls (fst w))(k \<mapsto> ncall (entry k w) + 1) \<and>
     m_last_call (fst w') =
       (if sint (m_last_call (fst w)) < sint (ncall (entry k w) + 1) then ncall (entry k w) + 1
        else m_last_call (fst w))"
proof -
  let ?w1 = "set_entry k (incr_ncall (init_plain t (entry k w))) w"
  obtain w2 where r: "plain_rows t k ?w1 = Ok w2" and c: "checkpoint order k w2 = Ok w'"
    using assms by (auto simp: collect_plain_def and_then_def split: if_splits result.splits)
  have n1: "ncalls (fst ?w1) = (ncalls (fst w))(k \<mapsto> ncall (entry k w) + 1)"
    by (simp add: ncalls_set_entry incr_ncall_def init_plain_def resize_all_def)
  have "ncalls (fst w2) = ncalls (fst ?w1) \<and> m_last_call (fst w2) = m_last_call (fst ?w1)"
    using r unfolding plain_rows_def
  proof (rule iter_invariant)
    show "ncalls (fst ?w1) = ncalls (fst ?w1) \<and> m_last_call (fst ?w1) = m_last_call (fst ?w1)"
      by simp
  next
    fix j a a'
    assume a: "ncalls (fst a) = ncalls (fst ?w1) \<and> m_last_call (fst a) = m_last_call (fst ?w1)"
      and s: "on_entry k (add_row (src1_ne0 t) 0 (\<lambda>i. src1_data t (j * src1_ne0 t + i))) a = Ok a'"
    have "ncalls (fst a) k \<noteq> None" using a n1 by simp
    from on_entry_calls [OF s this] a
    show "ncalls (fst a') = ncalls (fst ?w1) \<and> m_last_call (fst a') = m_last_call (fst ?w1)"
      by (simp add: add_row_ncall)
  qed
  then have w2: "ncalls (fst w2) = (ncalls (fst w))(k \<mapsto> ncall (entry k w) + 1)"
    "m_last_call (fst w2) = m_last_call (fst w)"
    using n1 by (simp_all add: set_entry_others)
  have "ncalls (fst w2) k = Some (ncall (entry k w) + 1)" using w2(1) by simp
  from checkpoint_calls [OF c this] show ?thesis using w2 by simp
qed


lemma routed_expert_calls:
  assumes "routed_expert order t k ex a = Ok a'" "ncalls (fst a) k = Some v"
  shows "ncalls (fst a') = ncalls (fst a) \<and>
     m_last_call (fst a') = (if sint (m_last_call (fst a)) < sint v then v else m_last_call (fst a))"
proof -
  obtain a2 where r: "iter (\<lambda>idx. iter (\<lambda>row. on_entry k (routed_row t ex idx row)) [0..<src1_ne2 t])
          [0..<ids_ne0 t] a = Ok a2"
    and c: "checkpoint order k a2 = Ok a'"
    using assms(1) by (auto simp: routed_expert_def and_then_def split: result.splits)
  let ?P = "\<lambda>b. ncalls (fst b) = ncalls (fst a) \<and> m_last_call (fst b) = m_last_call (fst a)"
  have row: "?P b'" if "?P b" "on_entry k (routed_row t ex idx row) b = Ok b'" for b b' idx row
  proof -
    have "ncalls (fst b) k \<noteq> None" using that(1) assms(2) by simp
    from on_entry_calls [OF that(2) this] that(1) show ?thesis
      by (simp add: routed_row_ncall)
  qed
  have inner: "?P b'"
    if "?P b" "iter (\<lambda>row. on_entry k (routed_row t ex idx row)) [0..<src1_ne2 t] b = Ok b'"
    for b b' idx
    using that(2,1) by (rule iter_invariant) (rule row)
  have "?P a2"
    using r by (rule iter_invariant) (simp, rule inner)
  moreover have "ncalls (fst a2) k = Some v" using calculation assms(2) by simp
  from checkpoint_calls [OF c this] have
    "ncalls (fst a') = ncalls (fst a2) \<and>
     m_last_call (fst a') = (if sint (m_last_call (fst a2)) < sint v then v else m_last_call (fst a2))" .
  ultimately show ?thesis by simp
qed

lemma collect_routed_calls:
  assumes "collect_routed order t k w = Ok w'" "0 < src0_ne2 t"
  shows "ncalls (fst w') = (ncalls (fst w))(k \<mapsto> ncall (entry k w) + 1) \<and>
     m_last_call (fst w') =
       (if sint (m_last_call (fst w)) < sint (ncall (entry k w) + 1) then ncall (entry k w) + 1
        else m_last_call (fst w))"
proof -
  let ?v = "ncall (entry k w) + 1"
  let ?l = "m_last_call (fst w)"
  let ?l' = "if sint ?l < sint ?v then ?v else ?l"
  let ?w1 = "set_entry k (init_routed t (incr_ncall (entry k w))) w"
  let ?n1 = "(ncalls (fst w))(k \<mapsto> ?v)"
  have it: "iter (routed_expert order t k) [0..<src0_ne2 t] ?w1 = Ok w'"
    using assms(1) by (simp add: collect_routed_def split: if_splits)
  have n1: "ncalls (fst ?w1) = ?n1" "m_last_call (fst ?w1) = ?l"
    by (simp_all add: ncalls_set_entry set_entry_others incr_ncall_def init_routed_def
        resize_all_def)
  let ?Q = "\<lambda>b. ncalls (fst b) = ?n1 \<and> m_last_call (fst b) = ?l'"
  have "[0..<src0_ne2 t] = 0 # [1..<src0_ne2 t]"
    using assms(2) by (simp add: upt_conv_Cons)
  then obtain a where first: "routed_expert order t k 0 ?w1 = Ok a"
    and rest: "iter (routed_expert order t k) [1..<src0_ne2 t] a = Ok w'"
    using it by (auto split: result.splits)
  have "ncalls (fst ?w1) k = Some ?v" using n1(1) by simp
  from routed_expert_calls [OF first this] have qa: "?Q a"
    using n1 by simp
  have "?Q w'"
    using rest qa
  proof (rule iter_invariant)
    fix j b b'
    assume b: "?Q b" and s: "routed_expert order t k j b = Ok b'"
    have "ncalls (fst b) k = Some ?v" using b by simp
    from routed_expert_calls [OF s this] b show "?Q b'"
      by (auto split: if_splits)
  qed
  then show ?thesis by simp
qed

lemma collect_imatrix_calls:
  assumes "collect_imatrix order t False w = Ok (b, w')" "0 < src0_ne2 t"
  shows "ncalls (fst w') =
       (ncalls (fst w))(filter_tensor_name (src0_name t) \<mapsto>
          ncall (entry (filter_tensor_name (src0_name t)) w) + 1) \<and>
     m_last_call (fst w') =
       (if sint (m_last_call (fst w)) < sint (ncall (entry (filter_tensor_name (src0_name t)) w) + 1)
        then ncall (entry (filter_tensor_name (src0_name t)) w) + 1 else m_last_call (fst w))"
proof (cases "t_op t = GGML_OP_MUL_MAT_ID")
  case True
  then have "collect_routed order t (filter_tensor_name (src0_name t)) w = Ok w'"
    using assms(1) by (auto simp: collect_imatrix_def and_then_def split: result.splits)
  then show ?thesis using assms(2) by (rule collect_routed_calls)
next
  case False
  then have "collect_plain order t (filter_tensor_name (src0_name t)) w = Ok w'"
    using assms(1) by (auto simp: collect_imatrix_def and_then_def split: result.splits)
  then show ?thesis by (rule collect_plain_calls)
qed

lemma observed_last_call_is_max:
  assumes "observed w"
  shows "last_call_is_max (m_last_call (fst w)) (ncalls (fst w))"
  using assms
proof (induction rule: observed.induct)
  case (new p)
  show ?case by (simp add: last_call_is_max_def collector0_def ncalls_def)
next
  case (call w order t ask b w')
  show ?case
  proof (cases ask)
    case True
    then have "w' = w" using call.hyps(2) by (simp add: collect_imatrix_def)
    then show ?thesis using call.IH by simp
  next
    case False
    let ?k = "filter_tensor_name (src0_name t)"
    have c: "collect_imatrix order t False w = Ok (b, w')" using call.hyps(2) False by simp
    have step: "last_call_is_max
        (if sint (m_last_call (fst w)) < sint (ncall (entry ?k w) + 1) then ncall (entry ?k w) + 1
         else m_last_call (fst w))
        ((ncalls (fst w))(?k \<mapsto> ncall (entry ?k w) + 1))"
      using call.IH entry_ncall [of ?k w] call.hyps(4) by (rule last_call_is_max_step)
    from collect_imatrix_calls [OF c call.hyps(3)]
    have e1: "ncalls (fst w') = (ncalls (fst w))(?k \<mapsto> ncall (entry ?k w) + 1)"
      and e2: "m_last_call (fst w') =
        (if sint (m_last_call (fst w)) < sint (ncall (entry ?k w) + 1) then ncall (entry ?k w) + 1
         else m_last_call (fst w))"
      by blast+
    show ?thesis unfolding e1 e2 by (rule step)
  qed
qed


lemma filter_tensor_name_q: "filter_tensor_name ''CUDA0#blk.0.attn_q.weight#0'' = key_q"
  by (simp add: filter_tensor_name_def key_q_def)

lemma f32_examples:
  "f_add 0 (f_mul 0x40000000 0x40000000) = 0x40800000"
  "f_add 0 (f_mul 0x40400000 0x40400000) = 0x41100000"
  "f_add 0x40800000 (f_mul 0x40000000 0x40000000) = 0x41000000"
  "f_isfinite 0x40800000" "f_isfinite 0x41100000" "f_isfinite 0x41000000"
  by (simp_all add: f32_eval)

lemma replicate_2: "replicate 2 x = [x, x]"
  by (simp add: numeral_2_eq_2)

lemmas collect_eval =
  collect_imatrix_def collect_plain_def collect_routed_def routed_expert_def routed_row_def
  entry_def lookup_or_new_def Stats0_def init_plain_def init_routed_def resize_all_def
  resize_def replicate_2 incr_ncall_def set_entry_def plain_rows_def on_entry_def add_row_def
  add_sample_def upt_rec f32_examples f_zero_def and_then_def checkpoint_def periodic_def
  params0_def

lemma key_q_neq_key_up: "key_q \<noteq> key_up" "key_up \<noteq> key_q"
  by (simp_all add: key_q_def key_up_def)

lemma collect_once:
  "collect_imatrix [key_q] tensor_q False (collector0 params0, []) = Ok (True, (collector1, []))"
  by (simp add: collect_eval tensor_q_def filter_tensor_name_q collector0_def collector1_def
      stats1_def)

lemma collect_up_1:
  "collect_imatrix [key_q, key_up] tensor_up False (collector1, []) =
     Ok (True, (collector1\<lparr>m_stats := [key_q \<mapsto> stats1, key_up \<mapsto> stats_up1]\<rparr>, []))"
  by (simp add: collect_eval tensor_up_def filter_tensor_name_key_up collector1_def
      key_q_neq_key_up stats_up1_def)

lemma collect_up_2:
  "collect_imatrix [key_q, key_up] tensor_up False
     (collector1\<lparr>m_stats := [key_q \<mapsto> stats1, key_up \<mapsto> stats_up1]\<rparr>, []) =
     Ok (True, (collector7, []))"
  by (simp add: collect_eval tensor_up_def filter_tensor_name_key_up collector1_def
      key_q_neq_key_up stats_up1_def stats_up2_def collector7_def fun_upd_twist)

lemma observed_collector1: "observed (collector1, [])"
proof -
  have "sint (ncall (entry (filter_tensor_name (src0_name tensor_q)) (collector0 params0, []))) < 2147483647"
    by (simp add: entry_def lookup_or_new_def collector0_def Stats0_def)
  moreover have "0 < src0_ne2 tensor_q" by (simp add: tensor_q_def)
  ultimately show ?thesis
    using observed.call [OF observed.new collect_once] by simp
qed

lemma observed_collector7: "observed (collector7, [])"
proof -
  let ?w = "(collector1\<lparr>m_stats := [key_q \<mapsto> stats1, key_up \<mapsto> stats_up1]\<rparr>, [])"
  have n: "0 < src0_ne2 tensor_up" by (simp add: tensor_up_def)
  have "sint (ncall (entry (filter_tensor_name (src0_name tensor_up)) (collector1, []))) < 2147483647"
    by (simp add: tensor_up_def filter_tensor_name_key_up entry_def lookup_or_new_def
        collector1_def key_q_neq_key_up Stats0_def)
  with observed_collector1 collect_up_1 n have 1: "observed ?w"
    by (rule observed.call)
  have "sint (ncall (entry (filter_tensor_name (src0_name tensor_up)) ?w)) < 2147483647"
    by (simp add: tensor_up_def filter_tensor_name_key_up entry_def lookup_or_new_def
        stats_up1_def)
  with 1 collect_up_2 n show ?thesis
    by (rule observed.call)
qed


lemma round_n_as_005_2: "round_n_as_005 2 = 0"
  by (simp add: round_n_as_005_def fp_round_def fp_scale_def nbits.simps rne_shift_def)

lemma classify_stats_up2: "classify stats_up2 = Skip"
  by (simp add: classify_def stats_up2_def count_zeros_eval round_n_as_005_2)

lemma collector7_facts:
  "m_stats collector7 key_q = Some stats1" "m_stats collector7 key_up = Some stats_up2"
  "m_params collector7 = params0" "m_last_call collector7 = 2"
  by (simp_all add: collector7_def key_q_neq_key_up)

lemma order_wf_collector7: "order_wf [key_q, key_up] collector7"
  by (simp add: order_wf_def collector7_facts key_q_neq_key_up stats_wf_def stats1_facts
      stats_up2_def)

lemma to_store_collector7: "to_store [key_q, key_up] (m_stats collector7) = [key_q]"
  by (simp add: to_store_def collector7_facts kept_def classify_stats1 classify_stats_up2)

lemma entry_bytes_stats1:
  "entry_bytes key_q stats1 =
     [19, 0, 0, 0] @ bytes_of_string key_q @
     [1, 0, 0, 0,  2, 0, 0, 0,  0, 0, 128, 64,  0, 0, 16, 65]"
  using entry_bytes_ones [OF stats1_facts(1) finite_stats1, of key_q]
  by (simp add: stats1_facts key_q_def le32_def le_bytes4_def)

section \<open>Lemmas: loading a written file\<close>

lemma read_i32_le32: "read_i32 (le32 w @ r) = Some (w, r)"
  by (simp add: read_i32_def read_bytes_def length_le32 of_le32_le32)

lemma sint_of_nat_small:
  assumes "n < 2147483648"
  shows "sint (of_nat n :: i32) = int n"
proof -
  have "signed_take_bit 31 (int n) = int n"
    using assms by (simp add: signed_take_bit_int_eq_self_iff)
  then show ?thesis by (simp add: signed_of_nat)
qed

lemma read_bytes_append: "read_bytes (length bs) (bs @ r) = Some (bs, r)"
  by (simp add: read_bytes_def)

lemma chunks4_le32: "chunks4 (concat (map le32 vs)) = map le32 vs"
  by (induction vs) (simp_all add: le32_def le_bytes4_def)

lemma read_f32s_le32: "read_f32s (length vs) (concat (map le32 vs) @ r) = Some (vs, r)"
proof -
  have "length (concat (map le32 vs)) = 4 * length vs"
    by (induction vs) (simp_all add: length_le32)
  then have "read_bytes (4 * length vs) (concat (map le32 vs) @ r) = Some (concat (map le32 vs), r)"
    using read_bytes_append [of "concat (map le32 vs)" r] by simp
  moreover have "map of_le32 (map le32 vs) = vs"
    by (induction vs) (simp_all add: of_le32_le32)
  ultimately show ?thesis by (simp add: read_f32s_def chunks4_le32)
qed

lemma c_str_bytes_of_string:
  assumes "list_all (\<lambda>ch. of_char ch \<noteq> (0 :: nat)) k"
  shows "c_str (bytes_of_string k) = k"
proof -
  have "(of_nat (of_char ch) :: byte) \<noteq> 0" if "of_char ch \<noteq> (0 :: nat)" for ch
  proof
    assume "(of_nat (of_char ch) :: byte) = 0"
    then have "unat (of_nat (of_char ch) :: byte) = 0" by simp
    then have "(of_char ch :: nat) mod 256 = 0" by (simp add: unat_of_nat)
    then show False using that by simp
  qed
  then have "takeWhile (\<lambda>b. b \<noteq> 0) (bytes_of_string k) = bytes_of_string k"
    using assms by (auto simp: bytes_of_string_def list_all_iff)
  then show ?thesis unfolding c_str_def by (simp only: string_of_bytes_of_string)
qed

lemma length_bytes_of_string: "length (bytes_of_string k) = length k"
  by (simp add: bytes_of_string_def)

text \<open>One turn of the loop of \<^verbatim>\<open>load_imatrix\<close> on the bytes of a stored entry.\<close>

lemma load_entry_entry_bytes:
  assumes "name_ok k" "0 < length (values' stat)" "length (values' stat) < 2147483648"
  shows "load_entry (entry_bytes k stat @ r) c =
     load_merge k (ncall stat) (map (tmp_value stat) [0..<length (values' stat)]) r c"
proof -
  let ?n = "length (values' stat)"
  let ?tmp = "map (tmp_value stat) [0..<?n]"
  have len: "sint (of_nat (length k) :: i32) = int (length k)"
    using assms(1) by (simp add: name_ok_def sint_of_nat_small)
  have nv: "sint (of_nat ?n :: i32) = int ?n"
    using assms(3) by (rule sint_of_nat_small)
  have k: "c_str (bytes_of_string k) = k"
    using assms(1) by (simp add: name_ok_def c_str_bytes_of_string)
  have fl: "read_f32s ?n (concat (map (le32 \<circ> tmp_value stat) [0..<?n]) @ r) = Some (?tmp, r)"
    using read_f32s_le32 [of ?tmp r] by simp
  have rb: "read_bytes (length k) (bytes_of_string k @ r') = Some (bytes_of_string k, r')" for r'
    using read_bytes_append [of "bytes_of_string k" r'] by (simp add: length_bytes_of_string)
  have cc: "(\<lambda>i. le32 (tmp_value stat i)) = le32 \<circ> tmp_value stat"
    by (simp add: comp_def)
  show ?thesis
    unfolding entry_bytes_def load_entry_def cc
    using assms(1,2) by (simp add: read_i32_le32 len nv rb k fl name_ok_def)
qed

lemma sized_Stats0:
  "sized n Stats0 = \<lparr>activations = [], values' = replicate n f_zero, counts = replicate n 0,
     ncall = 0, n_as = 1\<rparr>"
  by (simp add: sized_def Stats0_def resize_def)

lemma load_merge_new:
  assumes "m_stats c k = None"
  shows "load_merge k (ncall stat) (map (tmp_value stat) [0..<length (values' stat)]) r c =
     Next r (c\<lparr>m_stats := (m_stats c)(k \<mapsto> reloaded stat)\<rparr>)"
proof -
  let ?n = "length (values' stat)"
  have z: "map2 f_add (replicate ?n f_zero) (map (tmp_value stat) [0..<?n]) =
      map (\<lambda>i. f_add f_zero (tmp_value stat i)) [0..<?n]"
    by (rule nth_equalityI) simp_all
  have "merge_entry (ncall stat) (map (tmp_value stat) [0..<?n]) (sized ?n Stats0) = reloaded stat"
    by (simp add: merge_entry_def sized_Stats0 reloaded_def z)
  then show ?thesis
    using assms by (simp add: load_merge_def lookup_or_new_def sized_Stats0)
qed


lemma load_entries_entries:
  assumes "distinct ts" "\<forall>k\<in>set ts. m_stats c k = None"
    and "\<forall>k\<in>set ts. name_ok k \<and>
           (\<exists>stat. m k = Some stat \<and> 0 < length (values' stat) \<and>
                   length (values' stat) < 2147483648)"
  shows "load_entries (length ts) (concat (map (\<lambda>k. entry_bytes k (the (m k))) ts) @ r) c =
     Ok (True, c\<lparr>m_stats := (\<lambda>k. if k \<in> set ts then map_option reloaded (m k) else m_stats c k)\<rparr>)"
  using assms
proof (induction ts arbitrary: c)
  case Nil
  show ?case by simp
next
  case (Cons k ts)
  obtain stat where st: "m k = Some stat" "0 < length (values' stat)"
      "length (values' stat) < 2147483648" and nk: "name_ok k"
    using Cons.prems(3) by auto
  let ?r = "concat (map (\<lambda>k. entry_bytes k (the (m k))) ts) @ r"
  let ?c1 = "c\<lparr>m_stats := (m_stats c)(k \<mapsto> reloaded stat)\<rparr>"
  have new: "m_stats c k = None" using Cons.prems(2) by simp
  have 1: "load_entry (entry_bytes k stat @ ?r) c = Next ?r ?c1"
    using load_entry_entry_bytes [OF nk st(2,3), of ?r c] load_merge_new [OF new, of stat ?r]
    by simp
  have 2: "load_entries (length ts) ?r ?c1 =
      Ok (True, ?c1\<lparr>m_stats := (\<lambda>x. if x \<in> set ts then map_option reloaded (m x) else m_stats ?c1 x)\<rparr>)"
    using Cons.prems by (intro Cons.IH) auto
  have 3: "(\<lambda>x. if x \<in> set ts then map_option reloaded (m x) else m_stats ?c1 x) =
      (\<lambda>x. if x \<in> set (k # ts) then map_option reloaded (m x) else m_stats c x)"
    using st(1) by (auto simp: fun_eq_iff)
  show ?case
    using 1 2 by (simp add: st(1) 3)
qed

lemma classify_Store_nonempty: "classify e = Store \<Longrightarrow> counts e \<noteq> []"
  by (auto simp: classify_def split: if_splits)

lemma stats_after_all_Store:
  assumes "\<forall>k\<in>set order. \<exists>e. m k = Some e \<and> classify e = Store"
  shows "stats_after order m = m" "to_store order m = order"
proof -
  show "stats_after order m = m"
    using assms by (fastforce simp: stats_after_def entry_after_def fun_eq_iff)
  show "to_store order m = order"
    using assms by (fastforce simp: to_store_def kept_def intro: filter_True)
qed

lemma snapshot_all_Store:
  assumes "\<forall>k\<in>set order. \<exists>e. m_stats c k = Some e \<and> classify e = Store"
  shows "snapshot order c =
     le32 (of_nat (length order)) @ concat (map (\<lambda>k. entry_bytes k (the (m_stats c k))) order) @
     trailer_bytes c"
  by (simp add: snapshot_def file_bytes_def stats_after_all_Store [OF assms])

lemma load_snapshot:
  assumes wf: "order_wf order c" and ne: "order \<noteq> []" and n: "length order < 2147483648"
    and ok: "\<forall>k\<in>set order. name_ok k \<and> (\<exists>stat. m_stats c k = Some stat \<and> storable stat)"
  shows "load_imatrix (Some (snapshot order c)) (collector0 p) =
     Ok (True, (collector0 p)\<lparr>m_stats := reloaded_map order (m_stats c)\<rparr>)"
proof -
  have st: "\<forall>k\<in>set order. \<exists>e. m_stats c k = Some e \<and> classify e = Store"
    using ok by (auto simp: storable_def)
  have s: "snapshot order c =
     le32 (of_nat (length order)) @
     (concat (map (\<lambda>k. entry_bytes k (the (m_stats c k))) order) @ trailer_bytes c)"
    using snapshot_all_Store [OF st] by simp
  have ent: "name_ok k \<and> (\<exists>stat. m_stats c k = Some stat \<and> 0 < length (values' stat) \<and>
      length (values' stat) < 2147483648)" if kin: "k \<in> set order" for k
  proof -
    obtain stat where a: "name_ok k" "m_stats c k = Some stat" "storable stat"
      using ok kin by auto
    have "stats_wf stat" using order_wfD(2) [OF wf] kin a(2) by auto
    moreover have "counts stat \<noteq> []"
      using a(3) by (intro classify_Store_nonempty) (simp add: storable_def)
    ultimately have "0 < length (values' stat)" by (simp add: stats_wf_def)
    then show ?thesis using a by (auto simp: storable_def)
  qed
  have e0: "m_stats (collector0 p) = Map.empty" by (simp add: collector0_def)
  have pre: "\<forall>k\<in>set order. m_stats (collector0 p) k = None" by (simp add: e0)
  have ent': "\<forall>k\<in>set order. name_ok k \<and> (\<exists>stat. m_stats c k = Some stat \<and>
      0 < length (values' stat) \<and> length (values' stat) < 2147483648)"
    using ent by blast
  have eq: "(\<lambda>k. if k \<in> set order then map_option reloaded (m_stats c k) else m_stats (collector0 p) k) =
      reloaded_map order (m_stats c)"
    by (auto simp: fun_eq_iff e0 reloaded_map_def)
  have le: "load_entries (length order)
      (concat (map (\<lambda>k. entry_bytes k (the (m_stats c k))) order) @ trailer_bytes c) (collector0 p) =
      Ok (True, (collector0 p)\<lparr>m_stats := reloaded_map order (m_stats c)\<rparr>)"
    using load_entries_entries [OF order_wfD(1) [OF wf] pre ent', of "trailer_bytes c"]
    unfolding eq .
  have "sint (of_nat (length order) :: i32) = int (length order)"
    using n by (rule sint_of_nat_small)
  moreover have "0 < length order" using ne by simp
  ultimately show ?thesis
    using le unfolding load_imatrix_def s by (simp add: read_i32_le32)
qed

lemma count_zeros_replicate_nonzero: "c \<noteq> 0 \<Longrightarrow> count_zeros (replicate n c) = 0"
  by (simp add: count_zeros_def)

lemma reloaded_facts:
  "length (values' (reloaded stat)) = length (values' stat)"
  "length (counts (reloaded stat)) = length (values' stat)"
  "ncall (reloaded stat) = ncall stat"
  by (simp_all add: reloaded_def)

lemma classify_reloaded:
  assumes "0 < length (values' stat)" "ncall stat \<noteq> 0"
  shows "classify (reloaded stat) = Store"
  using assms by (simp add: classify_def reloaded_def count_zeros_replicate_nonzero)

lemma length_written_values:
  "length (written_values stat) = length (values' stat)"
  "length (rewritten_values stat) = length (values' stat)"
  by (simp_all add: written_values_def rewritten_values_def)

lemma entry_bytes_stored:
  "entry_bytes k stat = stored_bytes k (ncall stat) (written_values stat)"
  by (simp add: entry_bytes_def stored_bytes_def written_values_def comp_def)

lemma written_values_reloaded: "written_values (reloaded stat) = rewritten_values stat"
proof (rule nth_equalityI)
  show "length (written_values (reloaded stat)) = length (rewritten_values stat)"
    by (simp add: length_written_values reloaded_facts)
next
  fix i assume "i < length (written_values (reloaded stat))"
  then have i: "i < length (values' stat)"
    by (simp add: length_written_values reloaded_facts)
  have "values' (reloaded stat) ! i = f_add f_zero (tmp_value stat i)"
    "counts (reloaded stat) ! i = ncall stat" "ncall (reloaded stat) = ncall stat"
    using i by (simp_all add: reloaded_def)
  then have "tmp_value (reloaded stat) i = reencoded (ncall stat) (tmp_value stat i)"
    by (simp add: tmp_value_def reencoded_def)
  then show "written_values (reloaded stat) ! i = rewritten_values stat ! i"
    using i by (simp add: written_values_def rewritten_values_def reloaded_facts)
qed

lemma entry_bytes_reloaded:
  "entry_bytes k (reloaded stat) = stored_bytes k (ncall stat) (rewritten_values stat)"
  by (simp add: entry_bytes_stored written_values_reloaded reloaded_facts)

lemma concat_le32_inj: "concat (map le32 vs) = concat (map le32 ws) \<Longrightarrow> vs = ws"
proof -
  assume "concat (map le32 vs) = concat (map le32 ws)"
  then have "chunks4 (concat (map le32 vs)) = chunks4 (concat (map le32 ws))" by simp
  then have "map le32 vs = map le32 ws" by (simp only: chunks4_le32)
  then have "map of_le32 (map le32 vs) = map of_le32 (map le32 ws)" by simp
  then show "vs = ws" by (simp add: comp_def of_le32_le32)
qed

lemma stored_bytes_inj:
  assumes "length vs = length ws"
  shows "stored_bytes k nc vs = stored_bytes k nc ws \<longleftrightarrow> vs = ws"
  using assms by (auto simp: stored_bytes_def dest: concat_le32_inj)

lemma length_concat_le32: "length (concat (map le32 vs)) = 4 * length vs"
  by (induction vs) (simp_all add: length_le32)

lemma length_stored_bytes:
  "length (stored_bytes k nc vs) = 12 + length k + 4 * length vs"
  by (simp add: stored_bytes_def length_le32 length_bytes_of_string length_concat_le32)

lemma concat_stored_bytes_inj:
  assumes "\<forall>k\<in>set ks. length (f k) = length (g k)"
  shows "concat (map (\<lambda>k. stored_bytes k (nc k) (f k)) ks) =
         concat (map (\<lambda>k. stored_bytes k (nc k) (g k)) ks) \<longleftrightarrow> (\<forall>k\<in>set ks. f k = g k)"
  using assms
proof (induction ks)
  case Nil
  show ?case by simp
next
  case (Cons k ks)
  have l: "length (stored_bytes k (nc k) (f k)) = length (stored_bytes k (nc k) (g k))"
    using Cons.prems by (simp add: length_stored_bytes)
  have "stored_bytes k (nc k) (f k) = stored_bytes k (nc k) (g k) \<longleftrightarrow> f k = g k"
    using Cons.prems by (intro stored_bytes_inj) simp
  moreover have "concat (map (\<lambda>k. stored_bytes k (nc k) (f k)) ks) =
         concat (map (\<lambda>k. stored_bytes k (nc k) (g k)) ks) \<longleftrightarrow> (\<forall>k\<in>set ks. f k = g k)"
    using Cons.prems by (intro Cons.IH) simp
  ultimately show ?case
    using l by (simp add: append_eq_append_conv)
qed

lemma f_of_int_examples:
  "f_of_int 3 = 0x40400000" "f_of_int 6 = 0x40C00000" "f_of_int 47 = 0x423C0000"
  "f_of_int 141 = 0x430D0000"
  by (simp_all add: f32_eval)

lemma f32_mean_examples:
  "f_mul (f_div 0x41C00000 0x40C00000) 0x40400000 = 0x41400000"
  "f_mul (f_div 0x42580000 0x40C00000) 0x40400000 = 0x41D80000"
  "f_mul (f_div (f_add 0 0x41400000) 0x40400000) 0x40400000 = 0x41400000"
  "f_mul (f_div (f_add 0 0x41D80000) 0x40400000) 0x40400000 = 0x41D80000"
  "f_mul (f_div 0x40400001 0x430D0000) 0x423C0000 = 0x3F800000"
  "f_add 0 0x3F800000 = 0x3F800000"
  "f_mul (f_div 0x3F800000 0x423C0000) 0x423C0000 = 0x3F7FFFFF"
  by (simp_all add: f32_eval)

lemma storable_stats1: "storable stats1"
  by (simp add: storable_def classify_stats1 stats1_facts)

lemma written_values_stats1:
  "written_values stats1 = [0x40800000, 0x41100000]"
  "rewritten_values stats1 = [0x40800000, 0x41100000]"
proof -
  have t: "tmp_value stats1 0 = 0x40800000" "tmp_value stats1 (Suc 0) = 0x41100000"
    by (simp_all add: tmp_value_def stats1_facts f_of_int_1 f_div_one f_mul_one f32_examples)
  have a: "f_add f_zero 0x40800000 = 0x40800000" "f_add f_zero 0x41100000 = 0x41100000"
    by (simp_all add: f32_eval)
  show w: "written_values stats1 = [0x40800000, 0x41100000]"
    by (simp add: written_values_def stats1_facts upt_rec t)
  show "rewritten_values stats1 = [0x40800000, 0x41100000]"
    by (simp add: rewritten_values_def w reencoded_def stats1_facts a f_of_int_1 f_div_one
        f_mul_one f32_examples)
qed

lemma entry_bytes_reloaded_stats1: "entry_bytes k (reloaded stats1) = entry_bytes k stats1"
proof -
  have "entry_bytes k (reloaded stats1) = stored_bytes k (ncall stats1) (rewritten_values stats1)"
    by (rule entry_bytes_reloaded)
  also have "\<dots> = entry_bytes k stats1"
    by (simp add: entry_bytes_stored written_values_stats1)
  finally show ?thesis .
qed

lemma stats3_facts:
  "ncall stats3 = 3" "values' stats3 = [0x41C00000, 0x42580000]" "counts stats3 = [6, 6]"
  "n_as stats3 = 1"
  by (simp_all add: stats3_def)

lemma collector3_facts:
  "m_stats collector3 key_q = Some stats3" "m_params collector3 = params0"
  "m_last_call collector3 = 3"
  by (simp_all add: collector3_def)

lemma classify_stats3: "classify stats3 = Store"
  by (simp add: classify_def stats3_facts count_zeros_eval)

lemma storable_stats3: "storable stats3"
  by (simp add: storable_def classify_stats3 stats3_facts)

lemma order_wf_collector3: "order_wf [key_q] collector3"
  by (simp add: order_wf_def collector3_def stats_wf_def stats3_facts)

lemma written_values_stats3:
  "written_values stats3 = [0x41400000, 0x41D80000]"
  "rewritten_values stats3 = [0x41400000, 0x41D80000]"
proof -
  show w: "written_values stats3 = [0x41400000, 0x41D80000]"
    by (simp add: written_values_def tmp_value_def stats3_facts upt_rec f_of_int_examples
        f32_mean_examples)
  show "rewritten_values stats3 = [0x41400000, 0x41D80000]"
    by (simp add: rewritten_values_def w reencoded_def stats3_facts f_zero_def f_of_int_examples
        f32_mean_examples)
qed

lemma stats47_facts:
  "ncall stats47 = 47" "values' stats47 = [0x40400001]" "counts stats47 = [141]"
  "n_as stats47 = 1"
  by (simp_all add: stats47_def)

lemma collector47_facts:
  "m_stats collector47 key_q = Some stats47" "m_params collector47 = params0"
  "m_last_call collector47 = 47"
  by (simp_all add: collector47_def)

lemma classify_stats47: "classify stats47 = Store"
  by (simp add: classify_def stats47_facts count_zeros_eval)

lemma storable_stats47: "storable stats47"
  by (simp add: storable_def classify_stats47 stats47_facts)

lemma order_wf_collector47: "order_wf [key_q] collector47"
  by (simp add: order_wf_def collector47_def stats_wf_def stats47_facts)

lemma written_values_stats47:
  "written_values stats47 = [0x3F800000]"
  "rewritten_values stats47 = [0x3F7FFFFF]"
proof -
  show w: "written_values stats47 = [0x3F800000]"
    by (simp add: written_values_def tmp_value_def stats47_facts f_of_int_examples
        f32_mean_examples)
  show "rewritten_values stats47 = [0x3F7FFFFF]"
    by (simp add: rewritten_values_def w reencoded_def stats47_facts f_zero_def f_of_int_examples
        f32_mean_examples)
qed

lemma reloaded_stats47:
  "reloaded stats47 =
     \<lparr>activations = [], values' = [0x3F800000], counts = [47], ncall = 47, n_as = 1\<rparr>"
proof -
  have "map (\<lambda>i. f_add f_zero (tmp_value stats47 i)) [0..<length (values' stats47)] =
      map (f_add f_zero) (written_values stats47)"
    by (simp add: written_values_def comp_def)
  then show ?thesis
    by (simp add: reloaded_def written_values_stats47 stats47_facts f_zero_def f32_mean_examples)
qed

lemma name_ok_key_q: "name_ok key_q"
  by (simp add: name_ok_def key_q_def)

lemma reloaded_stats1:
  "reloaded stats1 =
     \<lparr>activations = [], values' = [0x40800000, 0x41100000], counts = [1, 1], ncall = 1, n_as = 1\<rparr>"
proof -
  have t: "tmp_value stats1 0 = 0x40800000" "tmp_value stats1 (Suc 0) = 0x41100000"
    by (simp_all add: tmp_value_def stats1_facts f_of_int_1 f_div_one f_mul_one f32_examples)
  have a: "f_add f_zero 0x40800000 = 0x40800000" "f_add f_zero 0x41100000 = 0x41100000"
    by (simp_all add: f32_eval)
  show ?thesis
    by (simp add: reloaded_def stats1_facts upt_rec t a replicate_2)
qed

lemma load_entry_last_call:
  "load_entry bs c = Next bs' c' \<Longrightarrow> m_last_call c' = m_last_call c"
  "load_entry bs c = Return b c' \<Longrightarrow> m_last_call c' = m_last_call c"
  by (auto simp: load_entry_def load_merge_def split: option.splits if_splits prod.splits)

lemma load_entries_last_call:
  "load_entries n bs c = Ok (b, c') \<Longrightarrow> m_last_call c' = m_last_call c"
proof (induction n arbitrary: bs c)
  case 0
  then show ?case by simp
next
  case (Suc n)
  show ?case
  proof (cases "load_entry bs c")
    case (Next bs1 c1)
    then show ?thesis using Suc load_entry_last_call(1) [OF Next] by simp
  next
    case (Return b1 c1)
    then show ?thesis using Suc.prems load_entry_last_call(2) [OF Return] by simp
  next
    case Crash
    then show ?thesis using Suc.prems by simp
  qed
qed

lemma load_imatrix_last_call:
  "load_imatrix file c = Ok (b, c') \<Longrightarrow> m_last_call c' = m_last_call c"
  by (auto simp: load_imatrix_def split: option.splits if_splits prod.splits
      dest: load_entries_last_call)

lemma merged_last_call: "merged c \<Longrightarrow> m_last_call c = 0"
  by (induction rule: merged.induct) (simp_all add: collector0_def load_imatrix_last_call)

lemma load_collector1r:
  "load_imatrix (Some (snapshot [key_q] collector1)) (collector0 params0) = Ok (True, collector1r)"
proof -
  have ok: "\<forall>k\<in>set [key_q]. name_ok k \<and> (\<exists>stat. m_stats collector1 k = Some stat \<and> storable stat)"
    by (simp add: name_ok_key_q collector1_facts storable_stats1)
  have r: "(collector0 params0)\<lparr>m_stats := reloaded_map [key_q] (m_stats collector1)\<rparr> = collector1r"
    by (auto simp: collector0_def collector1r_def reloaded_map_def fun_eq_iff collector1_facts
        reloaded_stats1)
  show ?thesis
    using load_snapshot [OF order_wf_collector1 _ _ ok, of params0] r by simp
qed

lemma merged_collector1r: "merged collector1r"
  using merged.load [OF merged.fresh load_collector1r] .

lemma collector1r_facts:
  "m_stats collector1r key_q = Some (reloaded stats1)" "m_params collector1r = params0"
  "m_last_call collector1r = 0"
  by (simp_all add: collector1r_def reloaded_stats1)

lemma order_wf_collector1r: "order_wf [key_q] collector1r"
  by (simp add: order_wf_def collector1r_facts stats_wf_def reloaded_facts stats1_facts)

lemma snapshot_collector1r:
  "snapshot [key_q] collector1r =
     [1, 0, 0, 0,  19, 0, 0, 0] @ bytes_of_string key_q @
     [1, 0, 0, 0,  2, 0, 0, 0,  0, 0, 128, 64,  0, 0, 16, 65,  0, 0, 0, 0,  0, 0, 0, 0]"
proof -
  have st2: "\<forall>k\<in>set [key_q]. \<exists>e. m_stats collector1r k = Some e \<and> classify e = Store"
    by (simp add: collector1r_facts classify_reloaded stats1_facts)
  show ?thesis
    unfolding snapshot_all_Store [OF st2]
    by (simp add: collector1r_facts entry_bytes_reloaded_stats1 entry_bytes_stats1
        trailer_bytes_def params0_def le32_def le_bytes4_def bytes_of_string_def)
qed

section \<open>The claims\<close>

subsection \<open>C2: the threshold for a routed entry with partial data\<close>

text \<open>
  C2, as the code has it. An entry of a routed tensor (\<^verbatim>\<open>n_as > 1\<close>) in which some but
  not all counts are zero is stored, after the repair of its bad experts, exactly when
  the number of experts with at least one zero count is less than
  \<^verbatim>\<open>round(n_as * 0.05)\<close>; otherwise it is not stored and not changed. With 20 experts the
  threshold is 1, so an entry with exactly one bad expert is dropped, not kept.
\<close>

theorem routed_partial_threshold:
  assumes "order_wf order c" "k \<in> set order" "m_stats c k = Some e"
    and "1 < n_as e" "0 < count_zeros (counts e)" "count_zeros (counts e) < length (counts e)"
  shows "\<exists>c'. save_imatrix order nc c = Ok (c', save_fname (m_params c) nc, snapshot order c) \<and>
     (if int (length (bad_of e)) < round_n_as_005 (n_as e)
      then k \<in> set (to_store order (m_stats c)) \<and>
           m_stats c' k = Some (repair (n_per_expert e) (bad_of e) e)
      else k \<notin> set (to_store order (m_stats c)) \<and> m_stats c' k = Some e) \<and>
     (n_as e = 20 \<and> length (bad_of e) = 1 \<longrightarrow>
        k \<notin> set (to_store order (m_stats c)) \<and> m_stats c' k = Some e)"
proof -
  have cl: "classify e = (if int (length (bad_of e)) < round_n_as_005 (n_as e) then Repair else Skip)"
    using assms(4-6) by (rule classify_partial)
  show ?thesis
    using save_imatrix_wf [OF assms(1), of nc] assms(2,3) cl
    by (auto simp: stats_after_def to_store_def kept_def entry_after_def round_n_as_005_20)
qed

text \<open>The theorem at 30 experts, one of them without data: the entry is stored and repaired.\<close>

theorem routed_partial_threshold_witness:
  "order_wf [key_up] collector30 \<and> key_up \<in> set [key_up] \<and>
   m_stats collector30 key_up = Some stats30 \<and> 1 < n_as stats30 \<and>
   0 < count_zeros (counts stats30) \<and> count_zeros (counts stats30) < length (counts stats30) \<and>
   length (bad_of stats30) = 1 \<and> round_n_as_005 (n_as stats30) = 2 \<and>
   key_up \<in> set (to_store [key_up] (m_stats collector30)) \<and>
   (\<exists>c'. save_imatrix [key_up] (- 1) collector30 =
           Ok (c', save_fname params0 (- 1), snapshot [key_up] collector30) \<and>
         m_stats c' key_up = Some (repair 1 [0] stats30))"
proof -
  have m: "m_stats collector30 key_up = Some stats30" "m_params collector30 = params0"
    by (simp_all add: collector30_def)
  show ?thesis
    using routed_partial_threshold [OF order_wf_collector30 _ m(1), of "- 1"]
    by (auto simp: m stats30_facts bad_of_stats30 round_n_as_005_30 order_wf_collector30)
qed

text \<open>
  C2 as the claim states it fails: with 20 experts, one of them without data, the entry is
  not repaired and not stored; the file holds no entry.
\<close>

theorem routed_20_experts_one_bad_dropped:
  "save_imatrix [key_up] (- 1) collector20 =
     Ok (collector20, ''imatrix.dat'', [0, 0, 0, 0, 1, 0, 0, 0, 0, 0, 0, 0])"
  by (simp add: save_imatrix_def collector20_def classify_stats20 save_fname_def params0_def
      file_bytes_def trailer_bytes_def le32_def le_bytes4_def bytes_of_string_def)

subsection \<open>C5: what the repair writes\<close>

text \<open>
  C5, as the code has it. When \<^verbatim>\<open>save_imatrix\<close> repairs an entry, every element of the
  block of each bad expert (an expert with at least one zero count) gets count 1 and sum
  of squares 1, also the elements of that block whose count was not zero; the elements of
  the other experts, the activations, \<^verbatim>\<open>ncall\<close>, \<^verbatim>\<open>n_as\<close> and the lengths stay as they
  were.
\<close>

theorem repair_overwrites_bad_blocks:
  assumes "order_wf order c" "k \<in> set order" "m_stats c k = Some e" "classify e = Repair"
  shows "\<exists>c' e'. save_imatrix order nc c = Ok (c', save_fname (m_params c) nc, snapshot order c) \<and>
     m_stats c' k = Some e' \<and>
     activations e' = activations e \<and> ncall e' = ncall e \<and> n_as e' = n_as e \<and>
     length (counts e') = length (counts e) \<and> length (values' e') = length (counts e) \<and>
     (\<forall>i<length (counts e).
        counts e' ! i = (if in_bad_expert e i then 1 else counts e ! i) \<and>
        values' e' ! i = (if in_bad_expert e i then f_one else values' e ! i))"
proof -
  let ?e' = "repair (n_per_expert e) (bad_of e) e"
  have n: "1 < n_as e" using assms(4) by (rule classify_Repair_n_as)
  have wf: "stats_wf e" using order_wfD(2) [OF assms(1)] assms(2,3) by auto
  then have len: "length (values' e) = length (counts e)" by (simp add: stats_wf_def)
  have "stats_after order (m_stats c) k = Some ?e'"
    using assms(2-4) by (simp add: stats_after_def entry_after_def)
  moreover have "counts ?e' ! i = (if in_bad_expert e i then 1 else counts e ! i)"
    if "i < length (counts e)" for i
    using nth_counts_repair [OF that] by (simp add: in_bad_expert_iff [OF n])
  moreover have "values' ?e' ! i = (if in_bad_expert e i then f_one else values' e ! i)"
    if "i < length (counts e)" for i
    using nth_values_repair [of i e] that len by (simp add: in_bad_expert_iff [OF n])
  ultimately show ?thesis
    using save_imatrix_wf [OF assms(1), of nc] repair_fields [of "n_per_expert e" "bad_of e" e] len
    by simp
qed

text \<open>The theorem at \<open>collector5\<close>: element 1 (bad expert 0) is overwritten, element 2 is not.\<close>

theorem repair_overwrites_bad_blocks_witness:
  "order_wf [key_up] collector5 \<and> key_up \<in> set [key_up] \<and>
   m_stats collector5 key_up = Some stats5 \<and> classify stats5 = Repair \<and>
   (\<exists>c' e'. save_imatrix [key_up] (- 1) collector5 =
        Ok (c', save_fname (m_params collector5) (- 1), snapshot [key_up] collector5) \<and>
      m_stats c' key_up = Some e' \<and> counts e' ! 1 = 1 \<and> values' e' ! 1 = f_one \<and>
      counts e' ! 2 = 3)"
proof -
  have m: "m_stats collector5 key_up = Some stats5" by (simp add: collector5_def)
  have b2: "\<not> in_bad_expert stats5 2"
    by (simp add: in_bad_expert_iff stats5_facts bad_of_stats5)
  have c2: "counts stats5 ! 2 = 3" by (simp add: stats5_def)
  obtain c' e' where
    s: "save_imatrix [key_up] (- 1) collector5 =
          Ok (c', save_fname (m_params collector5) (- 1), snapshot [key_up] collector5)"
      "m_stats c' key_up = Some e'"
    and a: "\<forall>i<length (counts stats5).
        counts e' ! i = (if in_bad_expert stats5 i then 1 else counts stats5 ! i) \<and>
        values' e' ! i = (if in_bad_expert stats5 i then f_one else values' stats5 ! i)"
    using repair_overwrites_bad_blocks [OF order_wf_collector5 _ m classify_stats5, of "- 1"]
    by auto
  have "counts e' ! 1 = 1" "values' e' ! 1 = f_one" "counts e' ! 2 = 3"
    using a in_bad_expert_stats5 b2 c2 by (simp_all add: stats5_facts)
  then show ?thesis
    using s m order_wf_collector5 classify_stats5 by auto
qed

text \<open>
  C5 as the claim states it fails: element 1 lies in the bad expert 0 and has count 5 and
  sum of squares 10; after \<^verbatim>\<open>save_imatrix\<close> both are 1.
\<close>

theorem repair_overwrites_nonzero_count:
  "map_option (\<lambda>e. (counts e ! 1, values' e ! 1)) (m_stats collector5 key_up) =
     Some (5, 0x41200000) \<and>
   map_option (\<lambda>e. (counts e ! 1, values' e ! 1)) (saved_entry [key_up] (- 1) collector5 key_up) =
     Some (1, 0x3F800000)"
proof -
  have m: "m_stats collector5 key_up = Some stats5" by (simp add: collector5_def)
  let ?e' = "repair (n_per_expert stats5) (bad_of stats5) stats5"
  have s: "saved_entry [key_up] (- 1) collector5 key_up = Some ?e'"
    using save_imatrix_wf [OF order_wf_collector5, of "- 1"] m classify_stats5
    by (simp add: saved_entry_def stats_after_def entry_after_def)
  have "counts ?e' ! 1 = 1"
    using nth_counts_repair [of 1 stats5 2 "[0]"] by (simp add: stats5_facts bad_of_stats5)
  moreover have "values' ?e' ! 1 = f_one"
    using nth_values_repair [of 1 stats5 2 "[0]"] by (simp add: stats5_facts bad_of_stats5)
  ultimately show ?thesis
    using m s by (simp add: stats5_facts f_one_def)
qed

subsection \<open>C10: the repair is written into the collector\<close>

text \<open>
  C10. \<^verbatim>\<open>save_imatrix\<close> is declared \<^verbatim>\<open>const\<close>, but when it repairs an entry (there is a bad
  expert and the entry is stored) the collector after the call holds the repaired entry,
  which differs from the entry before the call: the counts and sums of squares of the bad
  experts are 1. The next \<^verbatim>\<open>save_imatrix\<close> starts from that collector and leaves the
  repaired entry as it is.
\<close>

theorem save_repair_persists:
  assumes "order_wf order c" "k \<in> set order" "m_stats c k = Some e"
    and "classify e = Repair" "bad_of e \<noteq> []"
  shows "\<exists>c' e' c''.
     save_imatrix order nc c = Ok (c', save_fname (m_params c) nc, snapshot order c) \<and>
     m_stats c' k = Some e' \<and> e' \<noteq> e \<and>
     (\<forall>i<length (counts e). in_bad_expert e i \<longrightarrow> counts e' ! i = 1 \<and> values' e' ! i = f_one) \<and>
     save_imatrix order nc' c' = Ok (c'', save_fname (m_params c) nc', snapshot order c') \<and>
     m_stats c'' k = Some e'"
proof -
  let ?e' = "repair (n_per_expert e) (bad_of e) e"
  let ?c' = "c\<lparr>m_stats := stats_after order (m_stats c)\<rparr>"
  let ?c'' = "?c'\<lparr>m_stats := stats_after order (m_stats ?c')\<rparr>"
  have n: "1 < n_as e" using assms(4) by (rule classify_Repair_n_as)
  have wf: "stats_wf e" using order_wfD(2) [OF assms(1)] assms(2,3) by auto
  then have len: "length (values' e) = length (counts e)" by (simp add: stats_wf_def)
  have 1: "save_imatrix order nc c = Ok (?c', save_fname (m_params c) nc, snapshot order c)"
    using assms(1) by (rule save_imatrix_wf)
  have 2: "m_stats ?c' k = Some ?e'"
    using assms(2-4) by (simp add: stats_after_def entry_after_def)
  have 3: "?e' \<noteq> e" using n assms(5) by (rule repair_changes)
  have 4: "counts ?e' ! i = 1 \<and> values' ?e' ! i = f_one"
    if "i < length (counts e)" "in_bad_expert e i" for i
    using nth_counts_repair [of i e] nth_values_repair [of i e] that len
    by (simp add: in_bad_expert_iff [OF n])
  have 5: "save_imatrix order nc' ?c' = Ok (?c'', save_fname (m_params c) nc', snapshot order ?c')"
    using save_imatrix_wf [OF order_wf_after [OF assms(1)], of nc'] by simp
  have "entry_after ?e' = ?e'"
    using entry_after_idem [of e] assms(4) by (simp add: entry_after_def)
  then have 6: "m_stats ?c'' k = Some ?e'"
    using assms(2-4) by (simp add: stats_after_def entry_after_def)
  show ?thesis
    using 1 2 3 4 5 6 by blast
qed

text \<open>The theorem at \<open>collector5\<close>.\<close>

theorem save_repair_persists_witness:
  "order_wf [key_up] collector5 \<and> key_up \<in> set [key_up] \<and>
   m_stats collector5 key_up = Some stats5 \<and> classify stats5 = Repair \<and> bad_of stats5 \<noteq> [] \<and>
   (\<exists>c' e' c''. save_imatrix [key_up] (- 1) collector5 =
        Ok (c', save_fname (m_params collector5) (- 1), snapshot [key_up] collector5) \<and>
      m_stats c' key_up = Some e' \<and> e' \<noteq> stats5 \<and> counts e' ! 0 = 1 \<and> values' e' ! 0 = f_one \<and>
      save_imatrix [key_up] 7 c' =
        Ok (c'', save_fname (m_params collector5) 7, snapshot [key_up] c') \<and>
      m_stats c'' key_up = Some e')"
proof -
  have m: "m_stats collector5 key_up = Some stats5" by (simp add: collector5_def)
  have b: "bad_of stats5 \<noteq> []" by (simp add: bad_of_stats5)
  have i: "in_bad_expert stats5 0" "0 < length (counts stats5)"
    by (simp_all add: in_bad_expert_iff stats5_facts bad_of_stats5)
  obtain c' e' c'' where
    s: "save_imatrix [key_up] (- 1) collector5 =
          Ok (c', save_fname (m_params collector5) (- 1), snapshot [key_up] collector5)"
      "m_stats c' key_up = Some e'" "e' \<noteq> stats5"
      "save_imatrix [key_up] 7 c' =
        Ok (c'', save_fname (m_params collector5) 7, snapshot [key_up] c')"
      "m_stats c'' key_up = Some e'"
    and a: "\<forall>i<length (counts stats5).
        in_bad_expert stats5 i \<longrightarrow> counts e' ! i = 1 \<and> values' e' ! i = f_one"
    using save_repair_persists [OF order_wf_collector5 _ m classify_stats5 b, of "- 1" 7]
    by auto
  have "counts e' ! 0 = 1" "values' e' ! 0 = f_one"
    using a i by blast+
  then show ?thesis
    using s m b order_wf_collector5 classify_stats5 by auto
qed

subsection \<open>C6: the values of a stored entry\<close>

text \<open>
  C6. The file is the number of stored entries, the stored entries in the order of
  \<^verbatim>\<open>to_store\<close>, and the trailer. The entry of a stored key is the length of the name, the
  name, \<^verbatim>\<open>ncall\<close>, the number of values, and for each index \<open>i\<close> the binary32 value
  \<^verbatim>\<open>(values[i] / float(counts[i])) * float(ncall)\<close>, taken from the entry as the collector
  holds it after the call. When \<^verbatim>\<open>ncall\<close> is 1, every count is 1 and every sum of squares
  is finite, the values written are the sums of squares themselves.
\<close>

theorem snapshot_values:
  assumes "order_wf order c"
  shows "\<exists>c'. save_imatrix order nc c = Ok (c', save_fname (m_params c) nc, snapshot order c) \<and>
     snapshot order c =
       le32 (of_nat (length (to_store order (m_stats c)))) @
       concat (map (\<lambda>k. entry_bytes k (the (m_stats c' k))) (to_store order (m_stats c))) @
       trailer_bytes c \<and>
     (\<forall>k\<in>set (to_store order (m_stats c)). \<exists>stat. m_stats c' k = Some stat \<and>
        entry_bytes k stat =
          le32 (of_nat (length k)) @ bytes_of_string k @ le32 (ncall stat) @
          le32 (of_nat (length (values' stat))) @
          concat (map (\<lambda>i. le32 (f_mul (f_div (values' stat ! i) (f_of_int (sint (counts stat ! i))))
                                 (f_of_int (sint (ncall stat)))))
                    [0..<length (values' stat)]) \<and>
        (ncall stat = 1 \<and>
         (\<forall>i<length (values' stat). counts stat ! i = 1 \<and> f_isfinite (values' stat ! i)) \<longrightarrow>
           entry_bytes k stat =
             le32 (of_nat (length k)) @ bytes_of_string k @ le32 1 @
             le32 (of_nat (length (values' stat))) @ concat (map le32 (values' stat))))"
proof -
  let ?c' = "c\<lparr>m_stats := stats_after order (m_stats c)\<rparr>"
  have 1: "save_imatrix order nc c = Ok (?c', save_fname (m_params c) nc, snapshot order c)"
    using assms by (rule save_imatrix_wf)
  have 2: "snapshot order c =
       le32 (of_nat (length (to_store order (m_stats c)))) @
       concat (map (\<lambda>k. entry_bytes k (the (m_stats ?c' k))) (to_store order (m_stats c))) @
       trailer_bytes c"
    by (simp add: snapshot_def file_bytes_def)
  have 3: "\<exists>stat. m_stats ?c' k = Some stat \<and>
        entry_bytes k stat =
          le32 (of_nat (length k)) @ bytes_of_string k @ le32 (ncall stat) @
          le32 (of_nat (length (values' stat))) @
          concat (map (\<lambda>i. le32 (f_mul (f_div (values' stat ! i) (f_of_int (sint (counts stat ! i))))
                                 (f_of_int (sint (ncall stat)))))
                    [0..<length (values' stat)]) \<and>
        (ncall stat = 1 \<and>
         (\<forall>i<length (values' stat). counts stat ! i = 1 \<and> f_isfinite (values' stat ! i)) \<longrightarrow>
           entry_bytes k stat =
             le32 (of_nat (length k)) @ bytes_of_string k @ le32 1 @
             le32 (of_nat (length (values' stat))) @ concat (map le32 (values' stat)))"
    if k: "k \<in> set (to_store order (m_stats c))" for k
  proof -
    obtain stat where st: "m_stats ?c' k = Some stat"
      using stats_after_wf [OF order_wfD(2) [OF assms], of k] k
        set_to_store [of order "m_stats c"]
      by auto
    have a: "entry_bytes k stat =
          le32 (of_nat (length k)) @ bytes_of_string k @ le32 (ncall stat) @
          le32 (of_nat (length (values' stat))) @
          concat (map (\<lambda>i. le32 (f_mul (f_div (values' stat ! i) (f_of_int (sint (counts stat ! i))))
                                 (f_of_int (sint (ncall stat)))))
                    [0..<length (values' stat)])"
      by (simp add: entry_bytes_def tmp_value_def)
    show ?thesis
      using st a entry_bytes_ones [of stat k] by blast
  qed
  show ?thesis
    using 1 2 3 by blast
qed

text \<open>The theorem at \<open>collector1\<close>, with the bytes of the file.\<close>

theorem snapshot_values_witness:
  "order_wf [key_q] collector1 \<and>
   snapshot [key_q] collector1 =
     [1, 0, 0, 0,  19, 0, 0, 0] @ bytes_of_string key_q @
     [1, 0, 0, 0,  2, 0, 0, 0,  0, 0, 128, 64,  0, 0, 16, 65,  1, 0, 0, 0,  0, 0, 0, 0]"
proof -
  obtain c' where
    s: "snapshot [key_q] collector1 =
       le32 (of_nat (length (to_store [key_q] (m_stats collector1)))) @
       concat (map (\<lambda>k. entry_bytes k (the (m_stats c' k))) (to_store [key_q] (m_stats collector1))) @
       trailer_bytes collector1"
    and e: "\<forall>k\<in>set (to_store [key_q] (m_stats collector1)). \<exists>stat. m_stats c' k = Some stat \<and>
        (ncall stat = 1 \<and>
         (\<forall>i<length (values' stat). counts stat ! i = 1 \<and> f_isfinite (values' stat ! i)) \<longrightarrow>
           entry_bytes k stat =
             le32 (of_nat (length k)) @ bytes_of_string k @ le32 1 @
             le32 (of_nat (length (values' stat))) @ concat (map le32 (values' stat)))"
    and c: "save_imatrix [key_q] (- 1) collector1 =
        Ok (c', save_fname (m_params collector1) (- 1), snapshot [key_q] collector1)"
    using snapshot_values [OF order_wf_collector1, of "- 1"] by blast
  have "c' = collector1\<lparr>m_stats := stats_after [key_q] (m_stats collector1)\<rparr>"
    using c save_imatrix_wf [OF order_wf_collector1, of "- 1"] by simp
  then have m: "m_stats c' key_q = Some stats1"
    by (simp add: stats_after_def collector1_def entry_after_def classify_stats1)
  have "entry_bytes key_q stats1 =
      le32 (of_nat (length key_q)) @ bytes_of_string key_q @ le32 1 @
      le32 (of_nat (length (values' stats1))) @ concat (map le32 (values' stats1))"
    using e m finite_stats1 by (simp add: to_store_collector1 stats1_facts(1))
  then have "entry_bytes key_q stats1 =
      [19, 0, 0, 0] @ bytes_of_string key_q @
      [1, 0, 0, 0,  2, 0, 0, 0,  0, 0, 128, 64,  0, 0, 16, 65]"
    by (simp add: stats1_facts key_q_def le32_def le_bytes4_def)
  then show ?thesis
    using s m order_wf_collector1
    by (simp add: to_store_collector1 trailer_bytes_def collector1_facts params0_def
        le32_def le_bytes4_def bytes_of_string_def)
qed

subsection \<open>C3: a call with another length\<close>

text \<open>
  C3 holds in the branch of \<^verbatim>\<open>GGML_OP_MUL_MAT\<close> and fails in the branch of
  \<^verbatim>\<open>GGML_OP_MUL_MAT_ID\<close>. The key has an entry with a nonempty vector of values. In
  the first branch a call with another length ends the process with the collector as it
  was. In the second the process ends too, but \<^verbatim>\<open>++e.ncall\<close> has already run: the entry
  of the collector at \<^verbatim>\<open>exit(1)\<close> has \<^verbatim>\<open>ncall\<close> raised by one (nothing else is
  changed).
\<close>

theorem length_mismatch_exit:
  assumes "m_stats (fst w) (filter_tensor_name (src0_name t)) = Some e" "values' e \<noteq> []"
  shows "(t_op t \<noteq> GGML_OP_MUL_MAT_ID \<and> length (values' e) \<noteq> src1_ne0 t \<longrightarrow>
            collect_imatrix order t False w = Exit1 w) \<and>
         (t_op t = GGML_OP_MUL_MAT_ID \<and> ids_ne1 t = src1_ne2 t \<and>
          length (values' e) \<noteq> src1_ne0 t * src0_ne2 t \<longrightarrow>
            collect_imatrix order t False w =
              Exit1 (set_entry (filter_tensor_name (src0_name t)) (e\<lparr>ncall := ncall e + 1\<rparr>) w) \<and>
            e\<lparr>ncall := ncall e + 1\<rparr> \<noteq> e)"
proof -
  have "ncall e + 1 \<noteq> ncall e" by simp
  then have "ncall (e\<lparr>ncall := ncall e + 1\<rparr>) \<noteq> ncall e" by simp
  then have "e\<lparr>ncall := ncall e + 1\<rparr> \<noteq> e" by metis
  then show ?thesis
    using assms
    by (simp add: collect_imatrix_def collect_plain_def collect_routed_def and_then_def
        entry_Some set_entry_same incr_ncall_def)
qed

text \<open>
  The theorem at \<open>collector_r\<close> and \<open>tensor_bad\<close>: the established length is 2, the call
  has length 6, and the process exits with \<^verbatim>\<open>ncall\<close> 2 in place of 1.
\<close>

theorem length_mismatch_exit_witness:
  "m_stats (fst (collector_r, [])) (filter_tensor_name (src0_name tensor_bad)) = Some stats_r \<and>
   values' stats_r \<noteq> [] \<and> t_op tensor_bad = GGML_OP_MUL_MAT_ID \<and>
   ids_ne1 tensor_bad = src1_ne2 tensor_bad \<and>
   length (values' stats_r) = 2 \<and> src1_ne0 tensor_bad * src0_ne2 tensor_bad = 6 \<and>
   collect_imatrix [key_up] tensor_bad False (collector_r, []) =
     Exit1 (collector_r\<lparr>m_stats := [key_up \<mapsto> stats_r\<lparr>ncall := 2\<rparr>]\<rparr>, [])"
proof -
  have t: "src0_name tensor_bad = key_up" "t_op tensor_bad = GGML_OP_MUL_MAT_ID"
    "ids_ne1 tensor_bad = src1_ne2 tensor_bad" "src1_ne0 tensor_bad * src0_ne2 tensor_bad = 6"
    by (simp_all add: tensor_bad_def)
  have m: "m_stats (fst (collector_r, [])) (filter_tensor_name (src0_name tensor_bad)) = Some stats_r"
    by (simp add: t filter_tensor_name_key_up collector_r_def)
  have s: "values' stats_r \<noteq> []" "length (values' stats_r) = 2" "ncall stats_r = 1"
    by (simp_all add: stats_r_def)
  have "set_entry key_up (stats_r\<lparr>ncall := ncall stats_r + 1\<rparr>) (collector_r, []) =
      (collector_r\<lparr>m_stats := [key_up \<mapsto> stats_r\<lparr>ncall := 2\<rparr>]\<rparr>, [])"
    by (simp add: set_entry_def collector_r_def s)
  then show ?thesis
    using length_mismatch_exit [OF m s(1), of "[key_up]"] m
    by (simp add: t s filter_tensor_name_key_up)
qed

subsection \<open>C4: a read failure during the merge\<close>

text \<open>
  C4 fails on the code. The file \<open>file_short_name\<close> ends inside the name of its second
  entry. \<^verbatim>\<open>load_imatrix\<close> returns \<^verbatim>\<open>false\<close>, and the collector it leaves still holds the
  first entry of the file, merged: the branch for a failed read of the name returns
  without clearing \<^verbatim>\<open>m_stats\<close>, which the branches for the later reads do
  (\<open>load_short_data_clears\<close>).
\<close>

theorem load_short_name_keeps_merged_entries:
  "load_imatrix (Some file_short_name) (collector0 params0) =
     Ok (False, (collector0 params0)\<lparr>m_stats := [''a'' \<mapsto> stats_a]\<rparr>)"
proof -
  have "load_entry [5, 0, 0, 0,  98, 108] c = Return False c" for c
    by (simp add: load_entry_def read_i32_Cons of_le32_def le_nat_def read_bytes_def)
  then show ?thesis
    using load_entry_a [of "[5, 0, 0, 0,  98, 108]"]
    by (simp add: load_imatrix_def file_short_name_def read_i32_Cons of_le32_def le_nat_def
        load_entries_pos)
qed

subsection \<open>C7: the number after the entries\<close>

text \<open>
  C7, as the code has it. The number written after the entries is \<^verbatim>\<open>m_last_call\<close>. In a
  collector built from a new one by observations alone it is the largest call count of
  all the entries of the collector, stored in the file or not (and 0 when there is no
  entry). In a collector built from a new one by loading files alone it is 0, whatever
  the call counts of its entries: \<^verbatim>\<open>load_imatrix\<close> does not write \<^verbatim>\<open>m_last_call\<close>.
\<close>

theorem last_call_count_field:
  assumes "order_wf order c"
  shows "\<exists>c'. save_imatrix order nc c =
          Ok (c', save_fname (m_params c) nc, snapshot order c) \<and>
     snapshot order c =
       le32 (of_nat (length (to_store order (m_stats c)))) @
       concat (map (\<lambda>k. entry_bytes k (the (m_stats c' k))) (to_store order (m_stats c))) @
       le32 (m_last_call c) @
       le32 (of_nat (length (prompt_file (m_params c)))) @
       bytes_of_string (prompt_file (m_params c)) \<and>
     (observed (c, fs) \<longrightarrow>
        0 \<le> sint (m_last_call c) \<and>
        (\<forall>k e. m_stats c k = Some e \<longrightarrow> sint (ncall e) \<le> sint (m_last_call c)) \<and>
        (m_last_call c = 0 \<and> m_stats c = Map.empty \<or>
         (\<exists>k e. m_stats c k = Some e \<and> ncall e = m_last_call c))) \<and>
     (merged c \<longrightarrow> m_last_call c = 0)"
proof -
  let ?c' = "c\<lparr>m_stats := stats_after order (m_stats c)\<rparr>"
  have 1: "save_imatrix order nc c = Ok (?c', save_fname (m_params c) nc, snapshot order c)"
    using assms by (rule save_imatrix_wf)
  have 2: "snapshot order c =
       le32 (of_nat (length (to_store order (m_stats c)))) @
       concat (map (\<lambda>k. entry_bytes k (the (m_stats ?c' k))) (to_store order (m_stats c))) @
       le32 (m_last_call c) @ le32 (of_nat (length (prompt_file (m_params c)))) @
       bytes_of_string (prompt_file (m_params c))"
    by (simp add: snapshot_def file_bytes_def trailer_bytes_def)
  have 3: "0 \<le> sint (m_last_call c) \<and>
        (\<forall>k e. m_stats c k = Some e \<longrightarrow> sint (ncall e) \<le> sint (m_last_call c)) \<and>
        (m_last_call c = 0 \<and> m_stats c = Map.empty \<or>
         (\<exists>k e. m_stats c k = Some e \<and> ncall e = m_last_call c))"
    if ob: "observed (c, fs)"
  proof -
    have inv: "last_call_is_max (m_last_call c) (ncalls c)"
      using observed_last_call_is_max [OF ob] by simp
    then have a: "0 \<le> sint (m_last_call c)" by (simp add: last_call_is_max_def)
    have b: "sint (ncall e) \<le> sint (m_last_call c)" if "m_stats c k = Some e" for k e
      using inv that by (auto simp: last_call_is_max_def ncalls_def)
    have d: "m_last_call c = 0 \<and> m_stats c = Map.empty \<or>
        (\<exists>k e. m_stats c k = Some e \<and> ncall e = m_last_call c)"
    proof -
      from inv have "m_last_call c = 0 \<and> ncalls c = Map.empty \<or>
          (\<exists>k. ncalls c k = Some (m_last_call c))"
        by (simp add: last_call_is_max_def)
      then show ?thesis
      proof
        assume e: "m_last_call c = 0 \<and> ncalls c = Map.empty"
        then have "ncalls c k = None" for k by simp
        then have "m_stats c k = None" for k by (simp add: ncalls_def)
        then have "m_stats c = Map.empty" by (simp add: fun_eq_iff)
        then show ?thesis using e by simp
      next
        assume "\<exists>k. ncalls c k = Some (m_last_call c)"
        then show ?thesis by (auto simp: ncalls_def)
      qed
    qed
    show ?thesis using a b d by blast
  qed
  have 4: "m_last_call c = 0" if "merged c"
    using that by (rule merged_last_call)
  show ?thesis
    using 1 2 3 4 by blast
qed

text \<open>
  The theorem at \<open>collector1\<close>, a new collector after one observation, and at
  \<open>collector1r\<close>, a new collector after it has loaded the file written from \<open>collector1\<close>.
\<close>

theorem last_call_count_field_witness:
  "order_wf [key_q] collector1 \<and> observed (collector1, []) \<and>
   snapshot [key_q] collector1 =
     [1, 0, 0, 0,  19, 0, 0, 0] @ bytes_of_string key_q @
     [1, 0, 0, 0,  2, 0, 0, 0,  0, 0, 128, 64,  0, 0, 16, 65,  1, 0, 0, 0,  0, 0, 0, 0] \<and>
   m_last_call collector1 = 1 \<and> m_stats collector1 key_q = Some stats1 \<and> ncall stats1 = 1 \<and>
   order_wf [key_q] collector1r \<and> merged collector1r \<and> m_last_call collector1r = 0 \<and>
   snapshot [key_q] collector1r =
     [1, 0, 0, 0,  19, 0, 0, 0] @ bytes_of_string key_q @
     [1, 0, 0, 0,  2, 0, 0, 0,  0, 0, 128, 64,  0, 0, 16, 65,  0, 0, 0, 0,  0, 0, 0, 0]"
proof -
  obtain c' where
    c: "save_imatrix [key_q] (- 1) collector1 =
          Ok (c', save_fname (m_params collector1) (- 1), snapshot [key_q] collector1)"
    and s: "snapshot [key_q] collector1 =
       le32 (of_nat (length (to_store [key_q] (m_stats collector1)))) @
       concat (map (\<lambda>k. entry_bytes k (the (m_stats c' k))) (to_store [key_q] (m_stats collector1))) @
       le32 (m_last_call collector1) @
       le32 (of_nat (length (prompt_file (m_params collector1)))) @
       bytes_of_string (prompt_file (m_params collector1))"
    using last_call_count_field [OF order_wf_collector1, of "- 1" "[]"] by auto
  have "c' = collector1\<lparr>m_stats := stats_after [key_q] (m_stats collector1)\<rparr>"
    using c save_imatrix_wf [OF order_wf_collector1, of "- 1"] by simp
  then have m: "m_stats c' key_q = Some stats1"
    by (simp add: stats_after_def collector1_facts entry_after_def classify_stats1)
  have a: "snapshot [key_q] collector1 =
     [1, 0, 0, 0,  19, 0, 0, 0] @ bytes_of_string key_q @
     [1, 0, 0, 0,  2, 0, 0, 0,  0, 0, 128, 64,  0, 0, 16, 65,  1, 0, 0, 0,  0, 0, 0, 0]"
    using s m
    by (simp add: to_store_collector1 entry_bytes_stats1 collector1_facts params0_def
        stats1_facts le32_def le_bytes4_def bytes_of_string_def)
  have b: "m_last_call collector1r = 0"
    using last_call_count_field [OF order_wf_collector1r, of "- 1" "[]"] merged_collector1r
    by blast
  show ?thesis
    using a b observed_collector1 order_wf_collector1 order_wf_collector1r merged_collector1r
      snapshot_collector1r
    by (simp add: collector1_facts stats1_facts)
qed

text \<open>
  C7 as the claim states it fails. \<open>collector7\<close> is built by three observations. Its
  routed entry (call count 2) has an expert without data and is dropped; the only entry
  in the file is the plain one, with call count 1; the number after the entries is 2.
\<close>

theorem last_call_count_exceeds_kept:
  "observed (collector7, []) \<and>
   save_imatrix [key_q, key_up] (- 1) collector7 =
     Ok (collector7, ''imatrix.dat'',
       [1, 0, 0, 0,  19, 0, 0, 0] @ bytes_of_string key_q @
       [1, 0, 0, 0,  2, 0, 0, 0,  0, 0, 128, 64,  0, 0, 16, 65,  2, 0, 0, 0,  0, 0, 0, 0])"
proof -
  have a: "stats_after [key_q, key_up] (m_stats collector7) = m_stats collector7"
    by (auto simp: stats_after_def fun_eq_iff collector7_facts entry_after_def classify_stats1
        classify_stats_up2)
  have "snapshot [key_q, key_up] collector7 =
       [1, 0, 0, 0,  19, 0, 0, 0] @ bytes_of_string key_q @
       [1, 0, 0, 0,  2, 0, 0, 0,  0, 0, 128, 64,  0, 0, 16, 65,  2, 0, 0, 0,  0, 0, 0, 0]"
    by (simp add: snapshot_def to_store_collector7 a collector7_facts entry_bytes_stats1
        file_bytes_def trailer_bytes_def params0_def le32_def le_bytes4_def bytes_of_string_def)
  then show ?thesis
    using save_imatrix_wf [OF order_wf_collector7, of "- 1"] observed_collector7
    by (simp add: a collector7_facts save_fname_def params0_def)
qed

subsection \<open>C1: writing, loading and writing again\<close>

text \<open>
  C1, as the code has it. Let every entry of the collector be stored as it is (none
  dropped, none repaired), under a name the format holds and with a call count other than
  0. Then the file written from the collector loads into a new collector with the same
  parameters, and that collector is written, with the keys met in the same order, to a
  second file. The second file has the number of entries, the names, the call counts, the
  numbers of values and the description of the source of the first. Each value \<open>x\<close> of the
  first file is, in the second, the binary32 result of
  \<^verbatim>\<open>((0 + x) / float(ncall)) * float(ncall)\<close>, and the number after the entries is 0: it is
  the \<^verbatim>\<open>m_last_call\<close> of the collector that loaded the file, which \<^verbatim>\<open>load_imatrix\<close> does
  not set. So the second file is the first one with 0 after the entries exactly when that
  computation gives every value back.
\<close>

theorem roundtrip_reencoded:
  assumes wf: "order_wf order c" and ne: "order \<noteq> []" and n: "length order < 2147483648"
    and ok: "\<forall>k\<in>set order. name_ok k \<and> (\<exists>stat. m_stats c k = Some stat \<and> storable stat)"
  shows "\<exists>c2 c3.
     save_imatrix order nc c = Ok (c, save_fname (m_params c) nc, snapshot order c) \<and>
     load_imatrix (Some (snapshot order c)) (collector0 (m_params c)) = Ok (True, c2) \<and>
     save_imatrix order nc c2 = Ok (c3, save_fname (m_params c) nc, snapshot order c2) \<and>
     snapshot order c =
       le32 (of_nat (length order)) @
       concat (map (\<lambda>k. stored_bytes k (ncall (the (m_stats c k)))
                           (written_values (the (m_stats c k)))) order) @
       le32 (m_last_call c) @ le32 (of_nat (length (prompt_file (m_params c)))) @
       bytes_of_string (prompt_file (m_params c)) \<and>
     snapshot order c2 =
       le32 (of_nat (length order)) @
       concat (map (\<lambda>k. stored_bytes k (ncall (the (m_stats c k)))
                           (rewritten_values (the (m_stats c k)))) order) @
       le32 0 @ le32 (of_nat (length (prompt_file (m_params c)))) @
       bytes_of_string (prompt_file (m_params c)) \<and>
     (snapshot order c2 = snapshot order (c\<lparr>m_last_call := 0\<rparr>) \<longleftrightarrow>
        (\<forall>k\<in>set order. rewritten_values (the (m_stats c k)) = written_values (the (m_stats c k))))"
proof -
  let ?p = "m_params c"
  let ?c2 = "(collector0 ?p)\<lparr>m_stats := reloaded_map order (m_stats c)\<rparr>"
  let ?pre = "le32 (of_nat (length order))"
  let ?desc = "le32 (of_nat (length (prompt_file ?p))) @ bytes_of_string (prompt_file ?p)"
  let ?A = "concat (map (\<lambda>k. stored_bytes k (ncall (the (m_stats c k)))
                           (written_values (the (m_stats c k)))) order)"
  let ?B = "concat (map (\<lambda>k. stored_bytes k (ncall (the (m_stats c k)))
                           (rewritten_values (the (m_stats c k)))) order)"
  have st: "\<forall>k\<in>set order. \<exists>e. m_stats c k = Some e \<and> classify e = Store"
    using ok by (auto simp: storable_def)
  have "c\<lparr>m_stats := stats_after order (m_stats c)\<rparr> = c"
    by (simp add: stats_after_all_Store [OF st])
  then have 1: "save_imatrix order nc c = Ok (c, save_fname ?p nc, snapshot order c)"
    using save_imatrix_wf [OF wf, of nc] by simp
  have 2: "load_imatrix (Some (snapshot order c)) (collector0 ?p) = Ok (True, ?c2)"
    using wf ne n ok by (rule load_snapshot)
  have each: "\<exists>stat. m_stats c k = Some stat \<and> storable stat \<and> 0 < length (values' stat) \<and>
      m_stats ?c2 k = Some (reloaded stat)" if kin: "k \<in> set order" for k
  proof -
    obtain stat where a: "m_stats c k = Some stat" "storable stat" using ok kin by auto
    have "stats_wf stat" using order_wfD(2) [OF wf] kin a(1) by auto
    moreover have "counts stat \<noteq> []"
      using a(2) by (intro classify_Store_nonempty) (simp add: storable_def)
    ultimately have "0 < length (values' stat)" by (simp add: stats_wf_def)
    then show ?thesis using a kin by (simp add: reloaded_map_def)
  qed
  have wf2: "order_wf order ?c2"
    using order_wfD(1) [OF wf] each
    by (fastforce simp: order_wf_def list_all_iff stats_wf_def reloaded_facts)
  have st2: "\<forall>k\<in>set order. \<exists>e. m_stats ?c2 k = Some e \<and> classify e = Store"
  proof
    fix k assume "k \<in> set order"
    then obtain stat where a: "storable stat" "0 < length (values' stat)"
        "m_stats ?c2 k = Some (reloaded stat)"
      using each by blast
    have "classify (reloaded stat) = Store"
      using a(2) a(1) by (intro classify_reloaded) (simp_all add: storable_def)
    then show "\<exists>e. m_stats ?c2 k = Some e \<and> classify e = Store" using a(3) by simp
  qed
  have 3: "save_imatrix order nc ?c2 =
      Ok (?c2\<lparr>m_stats := stats_after order (m_stats ?c2)\<rparr>, save_fname ?p nc, snapshot order ?c2)"
    using save_imatrix_wf [OF wf2, of nc] by (simp add: collector0_def)
  have 4: "snapshot order c = ?pre @ ?A @ le32 (m_last_call c) @ ?desc"
    unfolding snapshot_all_Store [OF st] by (simp add: entry_bytes_stored trailer_bytes_def)
  have st0: "\<forall>k\<in>set order. \<exists>e. m_stats (c\<lparr>m_last_call := 0\<rparr>) k = Some e \<and> classify e = Store"
    using st by simp
  have 40: "snapshot order (c\<lparr>m_last_call := 0\<rparr>) = ?pre @ ?A @ le32 0 @ ?desc"
    unfolding snapshot_all_Store [OF st0] by (simp add: entry_bytes_stored trailer_bytes_def)
  have ents: "map (\<lambda>k. entry_bytes k (the (m_stats ?c2 k))) order =
      map (\<lambda>k. stored_bytes k (ncall (the (m_stats c k))) (rewritten_values (the (m_stats c k)))) order"
  proof (rule map_cong [OF refl])
    fix k assume "k \<in> set order"
    then obtain stat where a: "m_stats c k = Some stat" "m_stats ?c2 k = Some (reloaded stat)"
      using each by blast
    show "entry_bytes k (the (m_stats ?c2 k)) =
        stored_bytes k (ncall (the (m_stats c k))) (rewritten_values (the (m_stats c k)))"
      using a by (simp add: entry_bytes_reloaded)
  qed
  have tr: "trailer_bytes ?c2 = le32 0 @ ?desc"
    by (simp add: trailer_bytes_def collector0_def)
  have 5: "snapshot order ?c2 = ?pre @ ?B @ le32 0 @ ?desc"
    unfolding snapshot_all_Store [OF st2] ents tr by simp
  have "?B = ?A \<longleftrightarrow>
      (\<forall>k\<in>set order. rewritten_values (the (m_stats c k)) = written_values (the (m_stats c k)))"
    by (intro concat_stored_bytes_inj) (simp add: length_written_values)
  then have 6: "snapshot order ?c2 = snapshot order (c\<lparr>m_last_call := 0\<rparr>) \<longleftrightarrow>
      (\<forall>k\<in>set order. rewritten_values (the (m_stats c k)) = written_values (the (m_stats c k)))"
    unfolding 5 40 by simp
  show ?thesis
    using 1 2 3 4 5 6 by blast
qed

text \<open>
  The theorem at \<open>collector3\<close>: the counts are 6 and the call count is 3, the values written
  are 12 and 27 (from the sums 24 and 54), and the second file has them again.
\<close>

theorem roundtrip_reencoded_witness:
  "order_wf [key_q] collector3 \<and> [key_q] \<noteq> [] \<and> length [key_q] < 2147483648 \<and>
   name_ok key_q \<and> m_stats collector3 key_q = Some stats3 \<and> storable stats3 \<and>
   counts stats3 = [6, 6] \<and> ncall stats3 = 3 \<and>
   snapshot [key_q] collector3 =
     [1, 0, 0, 0,  19, 0, 0, 0] @ bytes_of_string key_q @
     [3, 0, 0, 0,  2, 0, 0, 0,  0, 0, 64, 65,  0, 0, 216, 65,  3, 0, 0, 0,  0, 0, 0, 0] \<and>
   (\<exists>c2 c3.
     load_imatrix (Some (snapshot [key_q] collector3)) (collector0 params0) = Ok (True, c2) \<and>
     save_imatrix [key_q] (- 1) c2 = Ok (c3, save_fname params0 (- 1), snapshot [key_q] c2) \<and>
     snapshot [key_q] c2 =
       [1, 0, 0, 0,  19, 0, 0, 0] @ bytes_of_string key_q @
       [3, 0, 0, 0,  2, 0, 0, 0,  0, 0, 64, 65,  0, 0, 216, 65,  0, 0, 0, 0,  0, 0, 0, 0] \<and>
     snapshot [key_q] c2 = snapshot [key_q] (collector3\<lparr>m_last_call := 0\<rparr>))"
proof -
  have ok: "\<forall>k\<in>set [key_q]. name_ok k \<and> (\<exists>stat. m_stats collector3 k = Some stat \<and> storable stat)"
    by (simp add: name_ok_key_q collector3_facts storable_stats3)
  have b: "stored_bytes key_q 3 [0x41400000, 0x41D80000] =
      [19, 0, 0, 0] @ bytes_of_string key_q @
      [3, 0, 0, 0,  2, 0, 0, 0,  0, 0, 64, 65,  0, 0, 216, 65]"
    by (simp add: stored_bytes_def key_q_def le32_def le_bytes4_def)
  have ne: "[key_q] \<noteq> []" and n: "length [key_q] < 2147483648"
    by simp_all
  obtain c2 c3 where
    l: "load_imatrix (Some (snapshot [key_q] collector3)) (collector0 (m_params collector3)) =
          Ok (True, c2)"
    and s: "save_imatrix [key_q] (- 1) c2 =
          Ok (c3, save_fname (m_params collector3) (- 1), snapshot [key_q] c2)"
    and s1: "snapshot [key_q] collector3 =
       le32 (of_nat (length [key_q])) @
       concat (map (\<lambda>k. stored_bytes k (ncall (the (m_stats collector3 k)))
                           (written_values (the (m_stats collector3 k)))) [key_q]) @
       le32 (m_last_call collector3) @ le32 (of_nat (length (prompt_file (m_params collector3)))) @
       bytes_of_string (prompt_file (m_params collector3))"
    and s2: "snapshot [key_q] c2 =
       le32 (of_nat (length [key_q])) @
       concat (map (\<lambda>k. stored_bytes k (ncall (the (m_stats collector3 k)))
                           (rewritten_values (the (m_stats collector3 k)))) [key_q]) @
       le32 0 @ le32 (of_nat (length (prompt_file (m_params collector3)))) @
       bytes_of_string (prompt_file (m_params collector3))"
    and e: "snapshot [key_q] c2 = snapshot [key_q] (collector3\<lparr>m_last_call := 0\<rparr>) \<longleftrightarrow>
        (\<forall>k\<in>set [key_q]. rewritten_values (the (m_stats collector3 k)) =
                           written_values (the (m_stats collector3 k)))"
    using roundtrip_reencoded [OF order_wf_collector3 ne n ok, of "- 1"] by blast
  have 1: "snapshot [key_q] collector3 =
      [1, 0, 0, 0,  19, 0, 0, 0] @ bytes_of_string key_q @
      [3, 0, 0, 0,  2, 0, 0, 0,  0, 0, 64, 65,  0, 0, 216, 65,  3, 0, 0, 0,  0, 0, 0, 0]"
    unfolding s1
    by (simp add: collector3_facts stats3_facts written_values_stats3 b params0_def le32_def
        le_bytes4_def bytes_of_string_def)
  have 2: "snapshot [key_q] c2 =
      [1, 0, 0, 0,  19, 0, 0, 0] @ bytes_of_string key_q @
      [3, 0, 0, 0,  2, 0, 0, 0,  0, 0, 64, 65,  0, 0, 216, 65,  0, 0, 0, 0,  0, 0, 0, 0]"
    unfolding s2
    by (simp add: collector3_facts stats3_facts written_values_stats3 b params0_def le32_def
        le_bytes4_def bytes_of_string_def)
  have 3: "snapshot [key_q] c2 = snapshot [key_q] (collector3\<lparr>m_last_call := 0\<rparr>)"
    using e by (simp add: collector3_facts written_values_stats3)
  have 4: "load_imatrix (Some (snapshot [key_q] collector3)) (collector0 params0) = Ok (True, c2)"
    "save_imatrix [key_q] (- 1) c2 = Ok (c3, save_fname params0 (- 1), snapshot [key_q] c2)"
    using l s by (simp_all add: collector3_facts)
  have 5: "order_wf [key_q] collector3 \<and> [key_q] \<noteq> [] \<and> length [key_q] < 2147483648 \<and>
   name_ok key_q \<and> m_stats collector3 key_q = Some stats3 \<and> storable stats3 \<and>
   counts stats3 = [6, 6] \<and> ncall stats3 = 3"
    by (simp add: order_wf_collector3 name_ok_key_q collector3_facts storable_stats3 stats3_facts)
  show ?thesis
    using 1 2 3 4 5 by blast
qed

text \<open>
  C1 as the claim states it fails. The entry of \<open>collector47\<close> is stored as it is, and the
  value written for it is 1. After that file is loaded into a new collector, the value
  written is \<open>0x3F7FFFFF\<close>, the binary32 number before 1, and the number after the
  entries is 0 in place of 47.
\<close>

theorem roundtrip_changes_value_and_last_call:
  "save_imatrix [key_q] (- 1) collector47 =
     Ok (collector47, ''imatrix.dat'',
       [1, 0, 0, 0,  19, 0, 0, 0] @ bytes_of_string key_q @
       [47, 0, 0, 0,  1, 0, 0, 0,  0, 0, 128, 63,  47, 0, 0, 0,  0, 0, 0, 0]) \<and>
   load_imatrix
     (Some ([1, 0, 0, 0,  19, 0, 0, 0] @ bytes_of_string key_q @
       [47, 0, 0, 0,  1, 0, 0, 0,  0, 0, 128, 63,  47, 0, 0, 0,  0, 0, 0, 0]))
     (collector0 params0) = Ok (True, collector47r) \<and>
   save_imatrix [key_q] (- 1) collector47r =
     Ok (collector47r, ''imatrix.dat'',
       [1, 0, 0, 0,  19, 0, 0, 0] @ bytes_of_string key_q @
       [47, 0, 0, 0,  1, 0, 0, 0,  255, 255, 127, 63,  0, 0, 0, 0,  0, 0, 0, 0]) \<and>
   snapshot [key_q] collector47r \<noteq> snapshot [key_q] collector47 \<and>
   snapshot [key_q] collector47r \<noteq> snapshot [key_q] (collector47\<lparr>m_last_call := 0\<rparr>)"
proof -
  let ?n = "[1, 0, 0, 0,  19, 0, 0, 0] @ bytes_of_string key_q :: byte list"
  have ok: "\<forall>k\<in>set [key_q]. name_ok k \<and> (\<exists>stat. m_stats collector47 k = Some stat \<and> storable stat)"
    by (simp add: name_ok_key_q collector47_facts storable_stats47)
  have st: "\<forall>k\<in>set [key_q]. \<exists>e. m_stats collector47 k = Some e \<and> classify e = Store"
    by (simp add: collector47_facts classify_stats47)
  have st0: "\<forall>k\<in>set [key_q]. \<exists>e. m_stats (collector47\<lparr>m_last_call := 0\<rparr>) k = Some e \<and>
      classify e = Store"
    by (simp add: collector47_facts classify_stats47)
  have b1: "entry_bytes key_q stats47 =
      [19, 0, 0, 0] @ bytes_of_string key_q @ [47, 0, 0, 0,  1, 0, 0, 0,  0, 0, 128, 63]"
    by (simp add: entry_bytes_stored written_values_stats47 stats47_facts stored_bytes_def key_q_def
        le32_def le_bytes4_def)
  have b2: "entry_bytes key_q (reloaded stats47) =
      [19, 0, 0, 0] @ bytes_of_string key_q @ [47, 0, 0, 0,  1, 0, 0, 0,  255, 255, 127, 63]"
    by (simp add: entry_bytes_reloaded written_values_stats47 stats47_facts stored_bytes_def
        key_q_def le32_def le_bytes4_def)
  have s1: "snapshot [key_q] collector47 =
      ?n @ [47, 0, 0, 0,  1, 0, 0, 0,  0, 0, 128, 63,  47, 0, 0, 0,  0, 0, 0, 0]"
    unfolding snapshot_all_Store [OF st]
    by (simp add: collector47_facts b1 trailer_bytes_def params0_def le32_def le_bytes4_def
        bytes_of_string_def)
  have s0: "snapshot [key_q] (collector47\<lparr>m_last_call := 0\<rparr>) =
      ?n @ [47, 0, 0, 0,  1, 0, 0, 0,  0, 0, 128, 63,  0, 0, 0, 0,  0, 0, 0, 0]"
    unfolding snapshot_all_Store [OF st0]
    by (simp add: collector47_facts b1 trailer_bytes_def params0_def le32_def le_bytes4_def
        bytes_of_string_def)
  have "collector47\<lparr>m_stats := stats_after [key_q] (m_stats collector47)\<rparr> = collector47"
    by (simp add: stats_after_all_Store [OF st])
  then have 1: "save_imatrix [key_q] (- 1) collector47 =
      Ok (collector47, ''imatrix.dat'', snapshot [key_q] collector47)"
    using save_imatrix_wf [OF order_wf_collector47, of "- 1"]
    by (simp add: collector47_facts save_fname_def params0_def)
  have r: "(collector0 params0)\<lparr>m_stats := reloaded_map [key_q] (m_stats collector47)\<rparr> =
      collector47r"
    by (auto simp: collector0_def collector47r_def reloaded_map_def fun_eq_iff collector47_facts
        reloaded_stats47)
  have 2: "load_imatrix (Some (snapshot [key_q] collector47)) (collector0 params0) =
      Ok (True, collector47r)"
    using load_snapshot [OF order_wf_collector47 _ _ ok, of params0] r by simp
  have m: "m_stats collector47r key_q = Some (reloaded stats47)" "m_params collector47r = params0"
    "m_last_call collector47r = 0"
    by (simp_all add: collector47r_def reloaded_stats47)
  have wf2: "order_wf [key_q] collector47r"
    by (simp add: order_wf_def m stats_wf_def reloaded_facts stats47_facts)
  have st2: "\<forall>k\<in>set [key_q]. \<exists>e. m_stats collector47r k = Some e \<and> classify e = Store"
    by (simp add: m classify_reloaded stats47_facts)
  have s2: "snapshot [key_q] collector47r =
      ?n @ [47, 0, 0, 0,  1, 0, 0, 0,  255, 255, 127, 63,  0, 0, 0, 0,  0, 0, 0, 0]"
    unfolding snapshot_all_Store [OF st2]
    by (simp add: m b2 trailer_bytes_def params0_def le32_def le_bytes4_def bytes_of_string_def)
  have "collector47r\<lparr>m_stats := stats_after [key_q] (m_stats collector47r)\<rparr> = collector47r"
    by (simp add: stats_after_all_Store [OF st2])
  then have 3: "save_imatrix [key_q] (- 1) collector47r =
      Ok (collector47r, ''imatrix.dat'', snapshot [key_q] collector47r)"
    using save_imatrix_wf [OF wf2, of "- 1"]
    by (simp add: m save_fname_def params0_def)
  have 4: "snapshot [key_q] collector47r \<noteq> snapshot [key_q] collector47"
    "snapshot [key_q] collector47r \<noteq> snapshot [key_q] (collector47\<lparr>m_last_call := 0\<rparr>)"
    unfolding s1 s2 s0 by simp_all
  show ?thesis
    using 1 2 3 4 unfolding s1 s2 by simp
qed

end
